theory Spec2Isabelle
  imports Main
begin

section \<open>Python values and the libraries the scheduler calls\<close>

text \<open>
  The development embeds \<^verbatim>\<open>src/scheduler/task_scheduler.py\<close>: the class \<^verbatim>\<open>Task\<close> and the
  class \<^verbatim>\<open>TaskScheduler\<close>.

  Time is counted in microseconds from 0001-01-01T00:00:00, the least \<^verbatim>\<open>datetime\<close>.
  \<open>Naive x\<close> is the naive \<^verbatim>\<open>datetime\<close> at the point \<open>x\<close>; \<open>Aware w off\<close> is an offset-aware
  one, with the wall clock \<open>w\<close> and the UTC offset \<open>off\<close> (what
  \<^verbatim>\<open>fromisoformat\<close> gives for a text that ends in \<^verbatim>\<open>+00:00\<close>). \<^verbatim>\<open>datetime.datetime.now()\<close>
  is always naive, so a clock read is the point itself, of type \<open>int\<close>.
\<close>

datatype datetime = Naive int | Aware int int

definition seconds :: "int \<Rightarrow> int" where
  "seconds n = n * 1000000"

text \<open>
  What a Python call can raise. \<open>PyException c\<close> is an instance of class \<^verbatim>\<open>Exception\<close>
  (the string names it): it is what \<^verbatim>\<open>except Exception\<close> handles. \<open>PyBaseException c\<close> is
  an instance of \<^verbatim>\<open>BaseException\<close> only (\<^verbatim>\<open>KeyboardInterrupt\<close>, \<^verbatim>\<open>SystemExit\<close>), which no
  handler of the module catches. \<open>Unmodelled c\<close> marks an input on which Python goes on
  with a value the typed model cannot hold; it is never handled, so no theorem speaks
  about such a run.
\<close>

datatype py_exception = PyException string | PyBaseException string | Unmodelled string

text \<open>
  The arithmetic of \<^verbatim>\<open>datetime\<close>. A \<^verbatim>\<open>timedelta\<close> holds at most 999999999 days in either
  direction and a \<^verbatim>\<open>datetime\<close> lies between the years 1 and 9999 (the last day has the
  ordinal 3652059): beyond, the constructor or the sum raises \<^verbatim>\<open>OverflowError\<close>. Comparing
  or subtracting a naive and an aware \<^verbatim>\<open>datetime\<close> raises \<^verbatim>\<open>TypeError\<close>.
\<close>

definition max_instant :: int where
  "max_instant = 3652059 * 86400000000 - 1"

definition timedelta_seconds :: "int \<Rightarrow> py_exception + int" where
  "timedelta_seconds n =
     (if - 999999999 \<le> n div 86400 \<and> n div 86400 \<le> 999999999 then Inr (seconds n)
      else Inl (PyException ''OverflowError''))"

definition dt_plus :: "int \<Rightarrow> int \<Rightarrow> py_exception + int" where
  "dt_plus x d =
     (if 0 \<le> x + d \<and> x + d \<le> max_instant then Inr (x + d)
      else Inl (PyException ''OverflowError''))"

text \<open>\<^verbatim>\<open>datetime.datetime.now() > d\<close>, \<^verbatim>\<open>d > datetime.datetime.now()\<close> and
  \<^verbatim>\<open>(d - datetime.datetime.now()).total_seconds()\<close>, in millionths.\<close>

fun now_after :: "int \<Rightarrow> datetime \<Rightarrow> py_exception + bool" where
  "now_after now (Naive x) = Inr (now > x)"
| "now_after now (Aware w off) = Inl (PyException ''TypeError'')"

fun after_now :: "datetime \<Rightarrow> int \<Rightarrow> py_exception + bool" where
  "after_now (Naive x) now = Inr (x > now)"
| "after_now (Aware w off) now = Inl (PyException ''TypeError'')"

fun minus_now :: "datetime \<Rightarrow> int \<Rightarrow> py_exception + int" where
  "minus_now (Naive x) now = Inr (x - now)"
| "minus_now (Aware w off) now = Inl (PyException ''TypeError'')"

fun caught :: "py_exception \<Rightarrow> bool" where
  "caught (PyException c) = True"
| "caught (PyBaseException c) = False"
| "caught (Unmodelled c) = False"

definition then_do :: "'e + 'a \<Rightarrow> ('a \<Rightarrow> 'e + 'b) \<Rightarrow> 'e + 'b" where
  "then_do r k = (case r of Inl e \<Rightarrow> Inl e | Inr v \<Rightarrow> k v)"

text \<open>The JSON scalars a persisted record holds, and a record as a Python dict.\<close>

datatype jval = JNone | JBool bool | JInt int | JStr string

type_synonym pydict = "string \<Rightarrow> jval option"

text \<open>
  One call of the logger. \<open>LogErrorExc p e\<close> is \<^verbatim>\<open>logger.error(p + str(e))\<close> for the
  handled exception \<open>e\<close>.
\<close>

datatype log_entry =
    LogInfo string
  | LogWarning string
  | LogError string
  | LogErrorExc string py_exception

text \<open>
  A job of the third-party package \<^verbatim>\<open>schedule\<close>, as its builder calls leave it:
  \<^verbatim>\<open>every(n)\<close> (\<open>every_micro\<close> is \<open>n\<close> in millionths, so that a fractional delay is
  exact), the unit property, the \<^verbatim>\<open>at\<close> string and the weekday.
\<close>

datatype time_unit = Seconds | Hours | Days | Weeks

record jobspec =
  every_micro :: int
  unit_of :: "time_unit option"
  at_time :: "string option"
  start_day :: "string option"

text \<open>
  The library functions that are not code of the repository are parameters:
  \<^item> \<open>isoformat\<close>, \<open>fromisoformat\<close>: the text codec of \<^verbatim>\<open>datetime\<close>;
  \<^item> \<open>dt_replace now minute hour day month\<close>: \<^verbatim>\<open>now.replace(minute=.., hour=.., day=.., month=..)\<close>
    on a clock read, where \<open>None\<close> keeps the field of \<open>now\<close>; it raises \<^verbatim>\<open>ValueError\<close> on a
    field out of range;
  \<^item> \<open>job_at\<close>: \<^verbatim>\<open>Job.at(time_str)\<close> of \<^verbatim>\<open>schedule\<close>, which validates the unit and the string;
  \<^item> \<open>job_do\<close>: the scheduling step of \<^verbatim>\<open>Job.do\<close>, before the job is put on the job list.
\<close>

record pylib =
  isoformat :: "datetime \<Rightarrow> string"
  fromisoformat :: "string \<Rightarrow> py_exception + datetime"
  dt_replace :: "int \<Rightarrow> int option \<Rightarrow> int option \<Rightarrow> int option \<Rightarrow> int option
                  \<Rightarrow> py_exception + int"
  job_at :: "jobspec \<Rightarrow> string \<Rightarrow> py_exception + jobspec"
  job_do :: "jobspec \<Rightarrow> py_exception + jobspec"

section \<open>The class Task\<close>

text \<open>
  The work-unit \<open>func\<close> is an opaque callable of type \<open>'f\<close>; \<open>job\<close> is the handle of the
  registered \<^verbatim>\<open>schedule\<close> job, \<open>None\<close> for Python's \<^verbatim>\<open>None\<close>.
\<close>

record ('f, 'a) task =
  task_id :: string
  name :: string
  func :: 'f
  args :: "'a list"
  kwargs :: "(string \<times> 'a) list"
  schedule_type :: string
  interval :: int
  cron :: "string option"
  start_time :: "datetime option"
  end_time :: "datetime option"
  max_runs :: "int option"
  enabled :: bool
  run_count :: int
  last_run :: "datetime option"
  next_run :: "datetime option"
  job :: "nat option"

text \<open>\<^verbatim>\<open>Task.__init__\<close>; \<^verbatim>\<open>args or []\<close> and \<^verbatim>\<open>kwargs or {}\<close> turn \<^verbatim>\<open>None\<close> into the empty value.\<close>

definition or_empty :: "'b list option \<Rightarrow> 'b list" where
  "or_empty xs = (case xs of None \<Rightarrow> [] | Some ys \<Rightarrow> ys)"

definition Task ::
  "string \<Rightarrow> string \<Rightarrow> 'f \<Rightarrow> 'a list option \<Rightarrow> (string \<times> 'a) list option \<Rightarrow> string \<Rightarrow> int
    \<Rightarrow> string option \<Rightarrow> datetime option \<Rightarrow> datetime option \<Rightarrow> int option \<Rightarrow> bool
    \<Rightarrow> ('f, 'a) task" where
  "Task tid nm f as kws sty iv cr st en mr enb =
     \<lparr> task_id = tid, name = nm, func = f, args = or_empty as, kwargs = or_empty kws,
       schedule_type = sty, interval = iv, cron = cr, start_time = st, end_time = en,
       max_runs = mr, enabled = enb, run_count = 0, last_run = None, next_run = None,
       job = None \<rparr>"

subsection \<open>to_dict and from_dict\<close>

definition iso_or_none :: "pylib \<Rightarrow> datetime option \<Rightarrow> jval" where
  "iso_or_none L d = (case d of None \<Rightarrow> JNone | Some x \<Rightarrow> JStr (isoformat L x))"

definition opt_int :: "int option \<Rightarrow> jval" where
  "opt_int n = (case n of None \<Rightarrow> JNone | Some k \<Rightarrow> JInt k)"

definition opt_str :: "string option \<Rightarrow> jval" where
  "opt_str n = (case n of None \<Rightarrow> JNone | Some k \<Rightarrow> JStr k)"

definition to_dict :: "pylib \<Rightarrow> ('f, 'a) task \<Rightarrow> pydict" where
  "to_dict L t =
     [ ''task_id'' \<mapsto> JStr (task_id t),
       ''name'' \<mapsto> JStr (name t),
       ''schedule_type'' \<mapsto> JStr (schedule_type t),
       ''interval'' \<mapsto> JInt (interval t),
       ''cron'' \<mapsto> opt_str (cron t),
       ''start_time'' \<mapsto> iso_or_none L (start_time t),
       ''end_time'' \<mapsto> iso_or_none L (end_time t),
       ''max_runs'' \<mapsto> opt_int (max_runs t),
       ''enabled'' \<mapsto> JBool (enabled t),
       ''run_count'' \<mapsto> JInt (run_count t),
       ''last_run'' \<mapsto> iso_or_none L (last_run t),
       ''next_run'' \<mapsto> iso_or_none L (next_run t) ]"

text \<open>\<^verbatim>\<open>data[k]\<close> raises \<^verbatim>\<open>KeyError\<close> on a missing key.\<close>

definition getitem :: "pydict \<Rightarrow> string \<Rightarrow> py_exception + jval" where
  "getitem d k = (case d k of None \<Rightarrow> Inl (PyException ''KeyError'') | Some v \<Rightarrow> Inr v)"

text \<open>
  Python stores whatever value the dict holds; the typed record holds only a value of
  the field's type, and any other value leaves the model.
\<close>

fun as_str :: "jval \<Rightarrow> py_exception + string" where
  "as_str (JStr s) = Inr s"
| "as_str v = Inl (Unmodelled ''not a str'')"

fun as_int :: "jval \<Rightarrow> py_exception + int" where
  "as_int (JInt n) = Inr n"
| "as_int v = Inl (Unmodelled ''not an int'')"

fun as_bool :: "jval \<Rightarrow> py_exception + bool" where
  "as_bool (JBool b) = Inr b"
| "as_bool v = Inl (Unmodelled ''not a bool'')"

fun as_opt_int :: "jval \<Rightarrow> py_exception + int option" where
  "as_opt_int (JInt n) = Inr (Some n)"
| "as_opt_int JNone = Inr None"
| "as_opt_int v = Inl (Unmodelled ''not an int or None'')"

fun as_opt_str :: "jval \<Rightarrow> py_exception + string option" where
  "as_opt_str (JStr s) = Inr (Some s)"
| "as_opt_str JNone = Inr None"
| "as_opt_str v = Inl (Unmodelled ''not a str or None'')"

text \<open>Python's truth value of a JSON scalar.\<close>

fun truthy :: "jval \<Rightarrow> bool" where
  "truthy JNone = False"
| "truthy (JBool b) = b"
| "truthy (JInt n) = (n \<noteq> 0)"
| "truthy (JStr s) = (s \<noteq> [])"

text \<open>
  \<^verbatim>\<open>datetime.datetime.fromisoformat(data[k]) if data[k] else None\<close>: the key is read, its
  truth value tested, and a true value parsed; \<^verbatim>\<open>fromisoformat\<close> raises \<^verbatim>\<open>TypeError\<close> on a
  value that is not a string.
\<close>

definition parse_or_none :: "pylib \<Rightarrow> pydict \<Rightarrow> string \<Rightarrow> py_exception + datetime option" where
  "parse_or_none L d k =
     then_do (getitem d k) (\<lambda>v.
       if truthy v then
         (case v of
            JStr s \<Rightarrow> then_do (fromisoformat L s) (\<lambda>x. Inr (Some x))
          | _ \<Rightarrow> Inl (PyException ''TypeError''))
       else Inr None)"

definition from_dict ::
  "pylib \<Rightarrow> pydict \<Rightarrow> 'f \<Rightarrow> 'a list option \<Rightarrow> (string \<times> 'a) list option
    \<Rightarrow> py_exception + ('f, 'a) task" where
  "from_dict L d f as kws =
     then_do (then_do (getitem d ''task_id'') as_str) (\<lambda>tid.
     then_do (then_do (getitem d ''name'') as_str) (\<lambda>nm.
     then_do (then_do (getitem d ''schedule_type'') as_str) (\<lambda>sty.
     then_do (then_do (getitem d ''interval'') as_int) (\<lambda>iv.
     then_do (then_do (getitem d ''cron'') as_opt_str) (\<lambda>cr.
     then_do (parse_or_none L d ''start_time'') (\<lambda>st.
     then_do (parse_or_none L d ''end_time'') (\<lambda>en.
     then_do (then_do (getitem d ''max_runs'') as_opt_int) (\<lambda>mr.
     then_do (then_do (getitem d ''enabled'') as_bool) (\<lambda>enb.
     then_do (then_do (getitem d ''run_count'') as_int) (\<lambda>rc.
     then_do (parse_or_none L d ''last_run'') (\<lambda>lr.
     then_do (parse_or_none L d ''next_run'') (\<lambda>nr.
       Inr ((Task tid nm f (Some (or_empty as)) (Some (or_empty kws)) sty iv cr st en mr enb)
              \<lparr> run_count := rc, last_run := lr, next_run := nr \<rparr>)))))))))))))"

subsection \<open>Task.run\<close>

text \<open>
  What the call \<^verbatim>\<open>self.function(*self.args, **self.kwargs)\<close> does at one firing: it
  returns a value (\<open>None\<close> is Python's \<^verbatim>\<open>None\<close>) or raises. The callable is opaque and may
  answer differently at each call, so its behaviour at a firing is an input of the firing.
\<close>

datatype 'r outcome = Returns "'r option" | Raises py_exception

text \<open>
  The result of \<^verbatim>\<open>Task.run\<close>: \<open>ret\<close> is the returned value, or the exception that leaves
  the method; \<open>after\<close> is the task object after the call; \<open>invoked\<close> tells whether the
  work-unit was called; \<open>said\<close> are the logger calls.
\<close>

record ('f, 'a, 'r) ran =
  ret :: "py_exception + 'r option"
  after :: "('f, 'a) task"
  invoked :: bool
  said :: "log_entry list"

definition task_label :: "('f, 'a) task \<Rightarrow> string" where
  "task_label t = ''Task '' @ task_id t @ '' ('' @ name t @ '')''"

definition reached_max :: "('f, 'a) task \<Rightarrow> bool" where
  "reached_max t = (case max_runs t of None \<Rightarrow> False | Some m \<Rightarrow> run_count t \<ge> m)"

text \<open>
  The end-time test of line 132, \<^verbatim>\<open>self.end_time is not None and datetime.datetime.now() >
  self.end_time\<close>, with the clock read \<open>now\<close>: it raises for an offset-aware end time.
\<close>

definition past_end :: "('f, 'a) task \<Rightarrow> int \<Rightarrow> py_exception + bool" where
  "past_end t now = (case end_time t of None \<Rightarrow> Inr False | Some d \<Rightarrow> now_after now d)"

text \<open>
  \<^verbatim>\<open>Task.run\<close> has two parts, with the call of the work-unit between them. The first part
  (lines 121 to 135) are the tests: it ends the call with \<^verbatim>\<open>None\<close> (\<open>Skipped\<close>, with the
  task as it leaves it and the log line), lets it proceed to the work-unit, or raises
  (line 132 is outside the \<^verbatim>\<open>try\<close> statement).
\<close>

datatype ('f, 'a) checked =
    Skipped "('f, 'a) task" "log_entry list"
  | Proceeds
  | Failed py_exception

definition run_check :: "('f, 'a) task \<Rightarrow> int \<Rightarrow> ('f, 'a) checked" where
  "run_check t t_limit =
     (if \<not> enabled t then Skipped t [LogInfo (task_label t @ '' is disabled'')]
      else if reached_max t then
        Skipped (t \<lparr> enabled := False \<rparr>)
          [LogInfo (task_label t @ '' has reached its maximum number of runs'')]
      else
        (case past_end t t_limit of
           Inl x \<Rightarrow> Failed x
         | Inr True \<Rightarrow>
             Skipped (t \<lparr> enabled := False \<rparr>)
               [LogInfo (task_label t @ '' has reached its end time'')]
         | Inr False \<Rightarrow> Proceeds))"

text \<open>
  The state update of a call that returned (lines 142 to 153); \<open>t_done\<close> is the clock
  read at line 143. The sum of line 147 may raise \<^verbatim>\<open>OverflowError\<close>, after \<open>run_count\<close>
  and \<open>last_run\<close> have been assigned.
\<close>

definition completed :: "('f, 'a) task \<Rightarrow> int \<Rightarrow> py_exception option \<times> ('f, 'a) task" where
  "completed t t_done =
     (let t1 = t \<lparr> run_count := run_count t + 1, last_run := Some (Naive t_done) \<rparr> in
      if schedule_type t1 = ''interval'' then
        (case then_do (timedelta_seconds (interval t1)) (dt_plus t_done) of
           Inl x \<Rightarrow> (Some x, t1)
         | Inr x \<Rightarrow> (None, t1 \<lparr> next_run := Some (Naive x) \<rparr>))
      else if schedule_type t1 = ''cron'' then (None, t1)
      else if schedule_type t1 = ''once'' then (None, t1 \<lparr> next_run := None, enabled := False \<rparr>)
      else (None, t1))"

text \<open>
  The second part (lines 137 to 160): the \<^verbatim>\<open>try\<close> statement around the call, for the task
  \<open>t\<close> as it is when the work-unit returns or raises.
\<close>

definition run_call :: "('f, 'a) task \<Rightarrow> 'r outcome \<Rightarrow> int \<Rightarrow> ('f, 'a, 'r) ran" where
  "run_call t out t_done =
     (case out of
        Returns v \<Rightarrow>
          (case completed t t_done of
             (None, t') \<Rightarrow>
               \<lparr> ret = Inr v, after = t', invoked = True,
                 said = [LogInfo (''Running task '' @ task_id t @ '' ('' @ name t @ '')''),
                         LogInfo (task_label t @ '' completed successfully'')] \<rparr>
           | (Some x, t') \<Rightarrow>
               if caught x then
                 \<lparr> ret = Inr None, after = t', invoked = True,
                   said = [LogInfo (''Running task '' @ task_id t @ '' ('' @ name t @ '')''),
                           LogErrorExc (''Error running task '' @ task_id t @ '' ('' @ name t
                                          @ ''): '') x] \<rparr>
               else
                 \<lparr> ret = Inl x, after = t', invoked = True,
                   said = [LogInfo (''Running task '' @ task_id t @ '' ('' @ name t @ '')'')] \<rparr>)
      | Raises e \<Rightarrow>
          if caught e then
            \<lparr> ret = Inr None, after = t, invoked = True,
              said = [LogInfo (''Running task '' @ task_id t @ '' ('' @ name t @ '')''),
                      LogErrorExc (''Error running task '' @ task_id t @ '' ('' @ name t
                                     @ ''): '') e] \<rparr>
          else
            \<lparr> ret = Inl e, after = t, invoked = True,
              said = [LogInfo (''Running task '' @ task_id t @ '' ('' @ name t @ '')'')] \<rparr>)"

text \<open>
  \<open>run t out t_limit t_done\<close> is a call of \<^verbatim>\<open>Task.run\<close> that no other thread interleaves
  with: \<open>t_limit\<close> is the clock read of the end-time check (line 132), \<open>t_done\<close> the one
  after the call (line 143).
\<close>

definition run ::
  "('f, 'a) task \<Rightarrow> 'r outcome \<Rightarrow> int \<Rightarrow> int \<Rightarrow> ('f, 'a, 'r) ran" where
  "run t out t_limit t_done =
     (case run_check t t_limit of
        Skipped t' ls \<Rightarrow> \<lparr> ret = Inr None, after = t', invoked = False, said = ls \<rparr>
      | Failed x \<Rightarrow> \<lparr> ret = Inl x, after = t, invoked = False, said = [] \<rparr>
      | Proceeds \<Rightarrow> run_call t out t_done)"

subsection \<open>Calls of Task.run that overlap\<close>

text \<open>
  \<^verbatim>\<open>Task.run\<close> takes no lock. The background thread calls it for a due job while a caller
  of \<^verbatim>\<open>run_task\<close>, \<^verbatim>\<open>add_task\<close>, \<^verbatim>\<open>enable_task\<close> or \<^verbatim>\<open>start\<close> may call it on the same task
  object, and \<^verbatim>\<open>stop\<close> returns while the worker may still be inside a work-unit. The
  threads interleave at the call of the work-unit, which is where a thread stays long:
  a call that passed the tests is in flight until its work-unit returns or raises.
  \<open>shared\<close> is a task object with the number of calls in flight and the number of calls
  of the work-unit so far. Besides \<^verbatim>\<open>Task.run\<close>, the module assigns \<open>enabled\<close>, \<open>next_run\<close>
  and \<open>job\<close> of a registered task.
\<close>

record ('f, 'a) shared =
  obj :: "('f, 'a) task"
  inflight :: nat
  unit_calls :: nat

datatype 'r tevent =
    Begin int
  | Return "'r outcome" int
  | SetEnabled bool
  | SetNextRun "datetime option"
  | SetJob "nat option"

fun tstep :: "'r tevent \<Rightarrow> ('f, 'a) shared \<Rightarrow> ('f, 'a) shared" where
  "tstep (Begin t_limit) c =
     (case run_check (obj c) t_limit of
        Skipped t' ls \<Rightarrow> c \<lparr> obj := t' \<rparr>
      | Failed x \<Rightarrow> c
      | Proceeds \<Rightarrow> c \<lparr> inflight := Suc (inflight c), unit_calls := Suc (unit_calls c) \<rparr>)"
| "tstep (Return out t_done) c =
     (if inflight c = 0 then c
      else c \<lparr> obj := after (run_call (obj c) out t_done), inflight := inflight c - 1 \<rparr>)"
| "tstep (SetEnabled b) c = c \<lparr> obj := (obj c) \<lparr> enabled := b \<rparr> \<rparr>"
| "tstep (SetNextRun x) c = c \<lparr> obj := (obj c) \<lparr> next_run := x \<rparr> \<rparr>"
| "tstep (SetJob x) c = c \<lparr> obj := (obj c) \<lparr> job := x \<rparr> \<rparr>"

fun tsteps :: "'r tevent list \<Rightarrow> ('f, 'a) shared \<Rightarrow> ('f, 'a) shared" where
  "tsteps [] c = c"
| "tsteps (ev # evs) c = tsteps evs (tstep ev c)"

text \<open>A run of events is \<open>serial\<close> when no call begins while another is in flight.\<close>

fun serial :: "'r tevent list \<Rightarrow> ('f, 'a) shared \<Rightarrow> bool" where
  "serial [] c = True"
| "serial (ev # evs) c =
     ((case ev of Begin t_limit \<Rightarrow> inflight c = 0 | _ \<Rightarrow> True) \<and> serial evs (tstep ev c))"

section \<open>Python string operations of the cron branch\<close>

text \<open>
  Strings are ASCII. \<^verbatim>\<open>str.split()\<close> cuts at runs of whitespace and drops empty pieces.
\<close>

definition is_space :: "char \<Rightarrow> bool" where
  "is_space c = ((of_char c :: nat) \<in> set [9, 10, 11, 12, 13, 28, 29, 30, 31, 32])"

fun split_from :: "string \<Rightarrow> string \<Rightarrow> string list" where
  "split_from cur [] = (if cur = [] then [] else [rev cur])"
| "split_from cur (c # cs) =
     (if is_space c then (if cur = [] then split_from [] cs else rev cur # split_from [] cs)
      else split_from (c # cur) cs)"

definition py_split :: "string \<Rightarrow> string list" where
  "py_split s = split_from [] s"

text \<open>\<^verbatim>\<open>s.zfill(2)\<close>: zeros are put after a leading sign.\<close>

definition zfill2 :: "string \<Rightarrow> string" where
  "zfill2 s =
     (case s of
        [] \<Rightarrow> ''00''
      | [c] \<Rightarrow> (if c = CHR ''+'' \<or> c = CHR ''-'' then [c, CHR ''0''] else [CHR ''0'', c])
      | _ \<Rightarrow> s)"

definition is_digit :: "char \<Rightarrow> bool" where
  "is_digit c = (48 \<le> (of_char c :: nat) \<and> (of_char c :: nat) \<le> 57)"

definition digits_value :: "string \<Rightarrow> int" where
  "digits_value ds = foldl (\<lambda>acc c. acc * 10 + (int (of_char c) - 48)) 0 ds"

text \<open>
  \<^verbatim>\<open>int(s)\<close> on a sign and decimal digits; any other ASCII string raises \<^verbatim>\<open>ValueError\<close>.
  Python also accepts surrounding whitespace, underscores between digits and digits
  outside ASCII: strings with such characters leave the model.
\<close>

definition py_int :: "string \<Rightarrow> py_exception + int" where
  "py_int s =
     (if list_ex (\<lambda>c. (of_char c :: nat) \<ge> 128 \<or> c = CHR ''_'' \<or> is_space c) s
      then Inl (Unmodelled ''int() of a string beyond sign and ASCII digits'')
      else
        (case s of
           [] \<Rightarrow> Inl (PyException ''ValueError'')
         | c # r \<Rightarrow>
             if c = CHR ''-'' \<and> r \<noteq> [] \<and> list_all is_digit r then Inr (- digits_value r)
             else if c = CHR ''+'' \<and> r \<noteq> [] \<and> list_all is_digit r then Inr (digits_value r)
             else if list_all is_digit s then Inr (digits_value s)
             else Inl (PyException ''ValueError'')))"

text \<open>\<^verbatim>\<open>str(n)\<close> of a length, for the log lines.\<close>

fun str_nat :: "nat \<Rightarrow> string" where
  "str_nat n =
     (if n < 10 then [''0123456789'' ! n]
      else str_nat (n div 10) @ [''0123456789'' ! (n mod 10)])"

declare str_nat.simps [simp del]

section \<open>The class TaskScheduler\<close>

text \<open>
  The file \<^verbatim>\<open>tasks.json\<close>: missing, unreadable (\<^verbatim>\<open>open\<close> or \<^verbatim>\<open>json.load\<close> raises, or the
  document is not iterable), or a list (a JSON object at top level iterates as its keys,
  which are entries that are not dicts).
\<close>

datatype jentry = JDict pydict | JOther

datatype file_state = Missing | Unreadable | Content "jentry list"

text \<open>What writing the file does: \<^verbatim>\<open>open(.., "w")\<close> or \<^verbatim>\<open>json.dump\<close> may raise \<^verbatim>\<open>OSError\<close>.\<close>

datatype write_outcome = Written | OpenFailed | DumpFailed

text \<open>
  The scheduler object together with what it shares with its process:
  \<^item> \<open>tasks\<close>: the dict \<^verbatim>\<open>self.tasks\<close> in insertion order, keys distinct;
  \<^item> \<open>running\<close>, \<open>thread\<close> (\<^verbatim>\<open>self.thread is not None\<close>);
  \<^item> \<open>worker\<close>: the background thread is inside \<^verbatim>\<open>_run_scheduler\<close>;
  \<^item> \<open>jobs\<close>: the job list of the module \<^verbatim>\<open>schedule\<close>; a job is its handle, its settings
    and the id of the task whose bound method \<^verbatim>\<open>run\<close> it calls; \<open>next_handle\<close> is the
    next fresh handle;
  \<^item> \<open>stored\<close>: the content of \<^verbatim>\<open>tasks.json\<close>;
  \<^item> \<open>called\<close>: the ids of the tasks whose work-unit was called, oldest first;
  \<^item> \<open>logged\<close>: the logger calls, oldest first.
  A Task object is mutated in place in Python; here every operation stores the task it
  changed back under the key \<open>k\<close> it is registered with, and a job names its task by
  that key.
\<close>

record ('f, 'a) scheduler =
  tasks :: "(string \<times> ('f, 'a) task) list"
  running :: bool
  thread :: bool
  worker :: bool
  jobs :: "(nat \<times> jobspec \<times> string) list"
  next_handle :: nat
  stored :: file_state
  called :: "string list"
  logged :: "log_entry list"

text \<open>
  The inputs of one operation that the code reads from outside: the clock at each
  \<^verbatim>\<open>datetime.datetime.now()\<close> (\<open>t_reg\<close>: lines 413, 448 and 459 of \<^verbatim>\<open>_schedule_task\<close>;
  \<open>t_delay\<close>: line 461; \<open>t_limit\<close> and \<open>t_done\<close>: lines 132 and 143 of \<^verbatim>\<open>Task.run\<close>), what
  the work-unit does if it is called, and what writing the file does.
\<close>

record 'r env =
  t_reg :: int
  t_delay :: int
  t_limit :: int
  t_done :: int
  outcome :: "'r outcome"
  disk :: write_outcome

definition say :: "log_entry list \<Rightarrow> ('f, 'a) scheduler \<Rightarrow> ('f, 'a) scheduler" where
  "say ls s = s \<lparr> logged := logged s @ ls \<rparr>"

definition has_task :: "('f, 'a) scheduler \<Rightarrow> string \<Rightarrow> bool" where
  "has_task s k = (map_of (tasks s) k \<noteq> None)"

text \<open>\<^verbatim>\<open>self.tasks[k] = t\<close>, also used to store a mutated task back.\<close>

definition set_item ::
  "string \<Rightarrow> ('f, 'a) task \<Rightarrow> (string \<times> ('f, 'a) task) list \<Rightarrow> (string \<times> ('f, 'a) task) list" where
  "set_item k t ts =
     (if map_of ts k = None then ts @ [(k, t)]
      else map (\<lambda>(k', v). if k' = k then (k', t) else (k', v)) ts)"

definition put :: "string \<Rightarrow> ('f, 'a) task \<Rightarrow> ('f, 'a) scheduler \<Rightarrow> ('f, 'a) scheduler" where
  "put k t s = s \<lparr> tasks := set_item k t (tasks s) \<rparr>"

definition get_task :: "('f, 'a) scheduler \<Rightarrow> string \<Rightarrow> ('f, 'a) task option" where
  "get_task s k = map_of (tasks s) k"

definition get_tasks :: "('f, 'a) scheduler \<Rightarrow> ('f, 'a) task list" where
  "get_tasks s = map snd (tasks s)"

subsection \<open>_save_tasks and _load_tasks\<close>

definition save_tasks :: "pylib \<Rightarrow> write_outcome \<Rightarrow> ('f, 'a) scheduler \<Rightarrow> ('f, 'a) scheduler" where
  "save_tasks L w s =
     (case w of
        Written \<Rightarrow>
          say [LogInfo (''Saved '' @ str_nat (length (tasks s)) @ '' tasks to configuration'')]
            (s \<lparr> stored := Content (map (\<lambda>(k, t). JDict (to_dict L t)) (tasks s)) \<rparr>)
      | OpenFailed \<Rightarrow> say [LogErrorExc ''Error saving tasks: '' (PyException ''OSError'')] s
      | DumpFailed \<Rightarrow>
          say [LogErrorExc ''Error saving tasks: '' (PyException ''OSError'')]
            (s \<lparr> stored := Unreadable \<rparr>))"

text \<open>
  Lines 204 to 207: the four assignments, each after the read that may raise; the task
  keeps the assignments made before an exception.
\<close>

definition restore ::
  "pylib \<Rightarrow> pydict \<Rightarrow> ('f, 'a) task \<Rightarrow> py_exception option \<times> ('f, 'a) task" where
  "restore L d t =
     (case then_do (getitem d ''enabled'') as_bool of
        Inl x \<Rightarrow> (Some x, t)
      | Inr b \<Rightarrow>
     (case then_do (getitem d ''run_count'') as_int of
        Inl x \<Rightarrow> (Some x, t \<lparr> enabled := b \<rparr>)
      | Inr n \<Rightarrow>
     (case parse_or_none L d ''last_run'' of
        Inl x \<Rightarrow> (Some x, t \<lparr> enabled := b, run_count := n \<rparr>)
      | Inr lr \<Rightarrow>
     (case parse_or_none L d ''next_run'' of
        Inl x \<Rightarrow> (Some x, t \<lparr> enabled := b, run_count := n, last_run := lr \<rparr>)
      | Inr nr \<Rightarrow>
          (None, t \<lparr> enabled := b, run_count := n, last_run := lr, next_run := nr \<rparr>)))))"

text \<open>
  The loop of lines 197 to 207. \<^verbatim>\<open>task_data["task_id"] not in self.tasks\<close>: an entry that
  is not a dict raises \<^verbatim>\<open>TypeError\<close>, a key that is not a string is in no registry.
\<close>

fun load_entries ::
  "pylib \<Rightarrow> jentry list \<Rightarrow> (string \<times> ('f, 'a) task) list
    \<Rightarrow> py_exception option \<times> (string \<times> ('f, 'a) task) list" where
  "load_entries L [] ts = (None, ts)"
| "load_entries L (JOther # es) ts = (Some (PyException ''TypeError''), ts)"
| "load_entries L (JDict d # es) ts =
     (case getitem d ''task_id'' of
        Inl x \<Rightarrow> (Some x, ts)
      | Inr (JStr k) \<Rightarrow>
          (case map_of ts k of
             None \<Rightarrow> load_entries L es ts
           | Some t \<Rightarrow>
               (case restore L d t of
                  (Some x, t') \<Rightarrow> (Some x, set_item k t' ts)
                | (None, t') \<Rightarrow> load_entries L es (set_item k t' ts)))
      | Inr v \<Rightarrow> load_entries L es ts)"

text \<open>
  \<^verbatim>\<open>_load_tasks\<close>. An exception of class \<^verbatim>\<open>Exception\<close> is logged; any other leaves the
  method (\<open>Some\<close> in the first component).
\<close>

definition load_tasks ::
  "pylib \<Rightarrow> ('f, 'a) scheduler \<Rightarrow> py_exception option \<times> ('f, 'a) scheduler" where
  "load_tasks L s =
     (case stored s of
        Missing \<Rightarrow> (None, s)
      | Unreadable \<Rightarrow>
          (None, say [LogErrorExc ''Error loading tasks: '' (PyException ''unreadable'')] s)
      | Content es \<Rightarrow>
          (case load_entries L es (tasks s) of
             (None, ts) \<Rightarrow>
               (None, say [LogInfo (''Loaded '' @ str_nat (length es)
                                      @ '' tasks from configuration'')]
                        (s \<lparr> tasks := ts \<rparr>))
           | (Some x, ts) \<Rightarrow>
               if caught x
               then (None, say [LogErrorExc ''Error loading tasks: '' x] (s \<lparr> tasks := ts \<rparr>))
               else (Some x, s \<lparr> tasks := ts \<rparr>)))"

text \<open>
  \<^verbatim>\<open>TaskScheduler.__init__\<close> in a process whose \<^verbatim>\<open>schedule\<close> job list is \<open>js\<close>, with the
  file content \<open>f\<close>; \<open>mk\<close> is the exception \<^verbatim>\<open>os.makedirs\<close> raises, if any.
\<close>

definition fresh :: "(nat \<times> jobspec \<times> string) list \<Rightarrow> nat \<Rightarrow> file_state \<Rightarrow> ('f, 'a) scheduler" where
  "fresh js h f =
     \<lparr> tasks = [], running = False, thread = False, worker = False, jobs = js,
       next_handle = h, stored = f, called = [], logged = [] \<rparr>"

definition init ::
  "pylib \<Rightarrow> py_exception option \<Rightarrow> (nat \<times> jobspec \<times> string) list \<Rightarrow> nat \<Rightarrow> file_state
    \<Rightarrow> py_exception + ('f, 'a) scheduler" where
  "init L mk js h f =
     (case mk of
        Some x \<Rightarrow> Inl x
      | None \<Rightarrow>
          (case load_tasks L (fresh js h f) of
             (Some x, s) \<Rightarrow> Inl x
           | (None, s) \<Rightarrow> Inr (say [LogInfo ''Initialized task scheduler''] s)))"

subsection \<open>_schedule_task\<close>

text \<open>
  \<^verbatim>\<open>schedule.cancel_job(job)\<close> takes the job off the list and ignores a job that is not
  on it; \<^verbatim>\<open>Job.do\<close> schedules the job (\<open>job_do\<close>, which may raise) and appends it.
\<close>

definition cancel_job :: "nat \<Rightarrow> ('f, 'a) scheduler \<Rightarrow> ('f, 'a) scheduler" where
  "cancel_job h s = s \<lparr> jobs := filter (\<lambda>j. fst j \<noteq> h) (jobs s) \<rparr>"

definition register ::
  "jobspec \<Rightarrow> string \<Rightarrow> ('f, 'a) scheduler \<Rightarrow> nat \<times> ('f, 'a) scheduler" where
  "register js k s =
     (next_handle s,
      s \<lparr> jobs := jobs s @ [(next_handle s, js, k)], next_handle := Suc (next_handle s) \<rparr>)"

definition every :: "int \<Rightarrow> jobspec" where
  "every n = \<lparr> every_micro = n, unit_of = None, at_time = None, start_day = None \<rparr>"

definition weekdays :: "string list" where
  "weekdays = [''monday'', ''tuesday'', ''wednesday'', ''thursday'', ''friday'', ''saturday'',
               ''sunday'']"

text \<open>
  Lines 425 to 442: the builder calls of the cron branch, up to the job that \<^verbatim>\<open>do\<close>
  receives. The properties \<^verbatim>\<open>hour\<close>, \<^verbatim>\<open>day\<close> and the weekdays set the unit of a job whose
  interval is 1; the month field is not used.
\<close>

definition hhmm :: "string \<Rightarrow> string \<Rightarrow> string" where
  "hhmm hour minute = zfill2 hour @ '':'' @ zfill2 minute"

definition cron_job ::
  "pylib \<Rightarrow> string \<Rightarrow> string \<Rightarrow> string \<Rightarrow> string \<Rightarrow> py_exception + jobspec" where
  "cron_job L minute hour day day_of_week =
     then_do
       (if minute \<noteq> ''*'' then job_at L (every 1000000) (hhmm hour minute)
        else job_at L ((every 1000000) \<lparr> unit_of := Some Hours \<rparr>) ('':'' @ zfill2 minute))
       (\<lambda>j1.
     then_do
       (if day \<noteq> ''*'' then job_at L (j1 \<lparr> unit_of := Some Days \<rparr>) (hhmm hour minute)
        else Inr j1)
       (\<lambda>j2.
     if day_of_week \<noteq> ''*'' then
       then_do (py_int day_of_week) (\<lambda>n.
         job_at L ((every 1000000) \<lparr> unit_of := Some Weeks,
                                      start_day := Some (weekdays ! nat (n mod 7)) \<rparr>)
                  (hhmm hour minute))
     else Inr j2))"

text \<open>
  Lines 448 to 455: the next run time of a cron task, from the clock read \<open>now\<close>; the sum
  of line 455 may raise \<^verbatim>\<open>OverflowError\<close>.
\<close>

definition cron_field :: "string \<Rightarrow> py_exception + int option" where
  "cron_field f = (if f \<noteq> ''*'' then then_do (py_int f) (\<lambda>n. Inr (Some n)) else Inr None)"

definition cron_next ::
  "pylib \<Rightarrow> int \<Rightarrow> string \<Rightarrow> string \<Rightarrow> string \<Rightarrow> string \<Rightarrow> py_exception + int" where
  "cron_next L now minute hour day month =
     then_do (cron_field minute) (\<lambda>mi.
     then_do (cron_field hour) (\<lambda>ho.
     then_do (cron_field day) (\<lambda>da.
     then_do (cron_field month) (\<lambda>mo.
     then_do (dt_replace L now mi ho da mo) (\<lambda>nr.
       if nr \<le> now then dt_plus nr (seconds 86400) else Inr nr)))))"

text \<open>
  The result of the body of the \<^verbatim>\<open>try\<close> statement: the returned flag or the exception
  raised in it, the task and the scheduler at that point.
\<close>

type_synonym ('f, 'a) scheduled = "(py_exception + bool) \<times> ('f, 'a) task \<times> ('f, 'a) scheduler"

definition scheduled_ok :: "('f, 'a) task \<Rightarrow> ('f, 'a) scheduler \<Rightarrow> ('f, 'a) scheduled" where
  "scheduled_ok t s =
     (Inr True, t, say [LogInfo (''Scheduled task '' @ task_id t @ '' ('' @ name t @ '')'')] s)"

text \<open>
  The branch of an interval task (lines 412 and 413): the job is registered, then the
  next run time is the clock read plus the interval, a sum that may raise
  \<^verbatim>\<open>OverflowError\<close>.
\<close>

definition schedule_interval ::
  "pylib \<Rightarrow> 'r env \<Rightarrow> string \<Rightarrow> ('f, 'a) task \<Rightarrow> ('f, 'a) scheduler \<Rightarrow> ('f, 'a) scheduled" where
  "schedule_interval L e k t s =
     (case job_do L ((every (seconds (interval t))) \<lparr> unit_of := Some Seconds \<rparr>) of
        Inl x \<Rightarrow> (Inl x, t, s)
      | Inr js \<Rightarrow>
          (let (h, s') = register js k s in
           (case then_do (timedelta_seconds (interval t)) (dt_plus (t_reg e)) of
              Inl x \<Rightarrow> (Inl x, t \<lparr> job := Some h \<rparr>, s')
            | Inr nr \<Rightarrow> scheduled_ok (t \<lparr> job := Some h, next_run := Some (Naive nr) \<rparr>) s')))"

definition schedule_cron ::
  "pylib \<Rightarrow> 'r env \<Rightarrow> string \<Rightarrow> ('f, 'a) task \<Rightarrow> ('f, 'a) scheduler \<Rightarrow> ('f, 'a) scheduled" where
  "schedule_cron L e k t s =
     (case cron t of
        None \<Rightarrow> (Inl (PyException ''AttributeError''), t, s)
      | Some c \<Rightarrow>
          (case py_split c of
             [minute, hour, day, month, day_of_week] \<Rightarrow>
               (case then_do (cron_job L minute hour day day_of_week) (job_do L) of
                  Inl x \<Rightarrow> (Inl x, t, s)
                | Inr js \<Rightarrow>
                    (let (h, s') = register js k s in
                     (case cron_next L (t_reg e) minute hour day month of
                        Inl x \<Rightarrow> (Inl x, t \<lparr> job := Some h \<rparr>, s')
                      | Inr nr \<Rightarrow>
                          scheduled_ok (t \<lparr> job := Some h, next_run := Some (Naive nr) \<rparr>) s')))
           | _ \<Rightarrow> (Inr False, t, say [LogError (''Invalid cron expression: '' @ c)] s)))"

text \<open>
  The branch of a one-shot task. When the start time is not in the future, \<^verbatim>\<open>task.run()\<close>
  is called at once and its result dropped.
\<close>

definition ran_in ::
  "string \<Rightarrow> ('f, 'a, 'r) ran \<Rightarrow> ('f, 'a) scheduler \<Rightarrow> ('f, 'a) scheduler" where
  "ran_in k r s =
     s \<lparr> called := called s @ (if invoked r then [k] else []),
         logged := logged s @ said r \<rparr>"

definition run_at_once ::
  "'r env \<Rightarrow> string \<Rightarrow> ('f, 'a) task \<Rightarrow> ('f, 'a) scheduler \<Rightarrow> ('f, 'a) scheduled" where
  "run_at_once e k t s =
     (let r = run t (outcome e) (t_limit e) (t_done e) in
      (case ret r of
         Inl x \<Rightarrow> (Inl x, after r, ran_in k r s)
       | Inr v \<Rightarrow>
           scheduled_ok ((after r) \<lparr> next_run := None, enabled := False \<rparr>) (ran_in k r s)))"

definition schedule_once ::
  "pylib \<Rightarrow> 'r env \<Rightarrow> string \<Rightarrow> ('f, 'a) task \<Rightarrow> ('f, 'a) scheduler \<Rightarrow> ('f, 'a) scheduled" where
  "schedule_once L e k t s =
     (case start_time t of
        None \<Rightarrow> run_at_once e k t s
      | Some st \<Rightarrow>
          (case after_now st (t_reg e) of
             Inl x \<Rightarrow> (Inl x, t, s)
           | Inr False \<Rightarrow> run_at_once e k t s
           | Inr True \<Rightarrow>
               (case then_do (minus_now st (t_delay e))
                       (\<lambda>delay. job_do L ((every delay) \<lparr> unit_of := Some Seconds \<rparr>)) of
                  Inl x \<Rightarrow> (Inl x, t, s)
                | Inr js \<Rightarrow>
                    (let (h, s') = register js k s in
                     scheduled_ok (t \<lparr> job := Some h, next_run := Some st \<rparr>) s'))))"

definition schedule_body ::
  "pylib \<Rightarrow> 'r env \<Rightarrow> string \<Rightarrow> ('f, 'a) task \<Rightarrow> ('f, 'a) scheduler \<Rightarrow> ('f, 'a) scheduled" where
  "schedule_body L e k t0 s0 =
     (let (t, s) = (case job t0 of
                      Some h \<Rightarrow> (t0 \<lparr> job := None \<rparr>, cancel_job h s0)
                    | None \<Rightarrow> (t0, s0)) in
      if \<not> enabled t then
        (Inr True, t,
         say [LogInfo (task_label t @ '' is disabled, skipping scheduling'')] s)
      else if schedule_type t = ''interval'' then schedule_interval L e k t s
      else if schedule_type t = ''cron'' then schedule_cron L e k t s
      else if schedule_type t = ''once'' then schedule_once L e k t s
      else scheduled_ok t s)"

text \<open>
  \<^verbatim>\<open>_schedule_task\<close>: the body under \<^verbatim>\<open>except Exception\<close>, which logs and returns
  \<^verbatim>\<open>False\<close>.
\<close>

definition schedule_task ::
  "pylib \<Rightarrow> 'r env \<Rightarrow> string \<Rightarrow> ('f, 'a) task \<Rightarrow> ('f, 'a) scheduler \<Rightarrow> ('f, 'a) scheduled" where
  "schedule_task L e k t0 s0 =
     (case schedule_body L e k t0 s0 of
        (Inl x, t, s) \<Rightarrow>
          if caught x then (Inr False, t, say [LogErrorExc ''Error scheduling task: '' x] s)
          else (Inl x, t, s)
      | (Inr b, t, s) \<Rightarrow> (Inr b, t, s))"

subsection \<open>The public operations\<close>

text \<open>
  Each operation returns what the method returns, or the exception that leaves it, and
  the scheduler after the call.
\<close>

definition no_such_task :: "string \<Rightarrow> log_entry" where
  "no_such_task k = LogWarning (''Task '' @ k @ '' does not exist'')"

definition add_task ::
  "pylib \<Rightarrow> 'r env \<Rightarrow> ('f, 'a) task \<Rightarrow> ('f, 'a) scheduler
    \<Rightarrow> (py_exception + bool) \<times> ('f, 'a) scheduler" where
  "add_task L e t s =
     (if has_task s (task_id t) then
        (Inr False, say [LogWarning (''Task '' @ task_id t @ '' already exists'')] s)
      else
        (case schedule_task L e (task_id t) t (put (task_id t) t s) of
           (Inl x, t', s') \<Rightarrow>
             if caught x
             then (Inr False, say [LogErrorExc ''Error adding task: '' x] (put (task_id t) t' s'))
             else (Inl x, put (task_id t) t' s')
         | (Inr b, t', s') \<Rightarrow>
             (Inr True,
              say [LogInfo (''Added task '' @ task_id t @ '' ('' @ name t @ '')'')]
                (save_tasks L (disk e) (put (task_id t) t' s')))))"

definition remove_task ::
  "pylib \<Rightarrow> 'r env \<Rightarrow> string \<Rightarrow> ('f, 'a) scheduler \<Rightarrow> bool \<times> ('f, 'a) scheduler" where
  "remove_task L e k s =
     (case map_of (tasks s) k of
        None \<Rightarrow> (False, say [no_such_task k] s)
      | Some t \<Rightarrow>
          (let s1 = (case job t of Some h \<Rightarrow> cancel_job h s | None \<Rightarrow> s);
               s2 = s1 \<lparr> tasks := filter (\<lambda>(k', v). k' \<noteq> k) (tasks s1) \<rparr>
           in (True,
               say [LogInfo (''Removed task '' @ k @ '' ('' @ name t @ '')'')]
                 (save_tasks L (disk e) s2))))"

definition enable_task ::
  "pylib \<Rightarrow> 'r env \<Rightarrow> string \<Rightarrow> ('f, 'a) scheduler
    \<Rightarrow> (py_exception + bool) \<times> ('f, 'a) scheduler" where
  "enable_task L e k s =
     (case map_of (tasks s) k of
        None \<Rightarrow> (Inr False, say [no_such_task k] s)
      | Some t \<Rightarrow>
          (case schedule_task L e k (t \<lparr> enabled := True \<rparr>) s of
             (Inl x, t', s') \<Rightarrow>
               if caught x
               then (Inr False, say [LogErrorExc ''Error enabling task: '' x] (put k t' s'))
               else (Inl x, put k t' s')
           | (Inr b, t', s') \<Rightarrow>
               (Inr True,
                say [LogInfo (''Enabled task '' @ k @ '' ('' @ name t @ '')'')]
                  (save_tasks L (disk e) (put k t' s')))))"

definition disable_task ::
  "pylib \<Rightarrow> 'r env \<Rightarrow> string \<Rightarrow> ('f, 'a) scheduler \<Rightarrow> bool \<times> ('f, 'a) scheduler" where
  "disable_task L e k s =
     (case map_of (tasks s) k of
        None \<Rightarrow> (False, say [no_such_task k] s)
      | Some t \<Rightarrow>
          (let t1 = t \<lparr> enabled := False \<rparr>;
               (t2, s2) = (case job t1 of
                             Some h \<Rightarrow> (t1 \<lparr> job := None \<rparr>, cancel_job h s)
                           | None \<Rightarrow> (t1, s))
           in (True,
               say [LogInfo (''Disabled task '' @ k @ '' ('' @ name t @ '')'')]
                 (save_tasks L (disk e) (put k t2 s2)))))"

definition run_task ::
  "pylib \<Rightarrow> 'r env \<Rightarrow> string \<Rightarrow> ('f, 'a) scheduler
    \<Rightarrow> (py_exception + 'r option) \<times> ('f, 'a) scheduler" where
  "run_task L e k s =
     (case map_of (tasks s) k of
        None \<Rightarrow> (Inr None, say [no_such_task k] s)
      | Some t \<Rightarrow>
          (let r = run t (outcome e) (t_limit e) (t_done e);
               s1 = ran_in k r (put k (after r) s)
           in (case ret r of
                 Inl x \<Rightarrow>
                   if caught x then (Inr None, say [LogErrorExc ''Error running task: '' x] s1)
                   else (Inl x, s1)
               | Inr v \<Rightarrow> (Inr v, save_tasks L (disk e) s1))))"

text \<open>
  \<^verbatim>\<open>start\<close> schedules every task, in the order of the dict; \<open>E k\<close> are the inputs of the
  call for the task \<open>k\<close>. An exception that leaves \<^verbatim>\<open>_schedule_task\<close> leaves \<^verbatim>\<open>start\<close>.
\<close>

fun schedule_all ::
  "pylib \<Rightarrow> (string \<Rightarrow> 'r env) \<Rightarrow> string list \<Rightarrow> ('f, 'a) scheduler
    \<Rightarrow> py_exception option \<times> ('f, 'a) scheduler" where
  "schedule_all L E [] s = (None, s)"
| "schedule_all L E (k # ks) s =
     (case map_of (tasks s) k of
        None \<Rightarrow> schedule_all L E ks s
      | Some t \<Rightarrow>
          (case schedule_task L (E k) k t s of
             (Inl x, t', s') \<Rightarrow> (Some x, put k t' s')
           | (Inr b, t', s') \<Rightarrow> schedule_all L E ks (put k t' s')))"

definition start ::
  "pylib \<Rightarrow> (string \<Rightarrow> 'r env) \<Rightarrow> ('f, 'a) scheduler
    \<Rightarrow> py_exception option \<times> ('f, 'a) scheduler" where
  "start L E s =
     (if running s then (None, say [LogWarning ''Scheduler is already running''] s)
      else
        (case schedule_all L E (map fst (tasks s)) (s \<lparr> running := True \<rparr>) of
           (Some x, s') \<Rightarrow> (Some x, s')
         | (None, s') \<Rightarrow>
             (None, say [LogInfo ''Started scheduler''] (s' \<lparr> thread := True, worker := True \<rparr>))))"

definition stop :: "pylib \<Rightarrow> 'r env \<Rightarrow> ('f, 'a) scheduler \<Rightarrow> ('f, 'a) scheduler" where
  "stop L e s =
     (if \<not> running s then say [LogWarning ''Scheduler is not running''] s
      else
        say [LogInfo ''Stopped scheduler'']
          (save_tasks L (disk e) (s \<lparr> running := False, thread := False, worker := False \<rparr>)))"

text \<open>
  One firing driven by the background loop: inside \<^verbatim>\<open>_run_scheduler\<close>,
  \<^verbatim>\<open>schedule.run_pending()\<close> finds the job \<open>h\<close> due and calls its function, the bound
  method \<^verbatim>\<open>run\<close> of the task that owns it. When the library finds a job due is the
  library's business, so the due job is an input. The handler of the loop logs an
  exception of class \<^verbatim>\<open>Exception\<close>; any other ends the thread. A job on the list whose
  task is not in the registry belongs to another user of the module \<^verbatim>\<open>schedule\<close>.
\<close>

definition fire_job ::
  "'r env \<Rightarrow> string \<Rightarrow> ('f, 'a) scheduler \<Rightarrow> py_exception option \<times> ('f, 'a) scheduler" where
  "fire_job e k s =
     (case map_of (tasks s) k of
        None \<Rightarrow> (None, s)
      | Some t \<Rightarrow>
          (let r = run t (outcome e) (t_limit e) (t_done e);
               s1 = ran_in k r (put k (after r) s)
           in (case ret r of
                 Inl x \<Rightarrow>
                   if caught x
                   then (None, say [LogErrorExc ''Error in scheduler loop: '' x] s1)
                   else (Some x, s1 \<lparr> worker := False \<rparr>)
               | Inr v \<Rightarrow> (None, s1))))"

definition fire ::
  "'r env \<Rightarrow> nat \<Rightarrow> ('f, 'a) scheduler \<Rightarrow> py_exception option \<times> ('f, 'a) scheduler" where
  "fire e h s =
     (if \<not> (worker s \<and> running s) then (None, s)
      else
        (case find (\<lambda>j. fst j = h) (jobs s) of
           None \<Rightarrow> (None, s)
         | Some (h', js, k) \<Rightarrow> fire_job e k s))"

subsection \<open>Runs of the scheduler\<close>

text \<open>
  An event is a call of a public operation or a firing of the loop. \<open>steps\<close> are the
  serial runs of the scheduler: every call and every firing has returned before the next
  one starts, so no two calls of \<^verbatim>\<open>Task.run\<close> overlap. Calls of \<^verbatim>\<open>Task.run\<close> that overlap
  are the runs \<open>tsteps\<close> of a shared task object. \<open>E k\<close> are the inputs of the call for
  the task \<open>k\<close>; a firing and \<^verbatim>\<open>stop\<close> read \<open>E []\<close>.
\<close>

datatype ('f, 'a) event =
    AddTask "('f, 'a) task"
  | RemoveTask string
  | EnableTask string
  | DisableTask string
  | RunTask string
  | Fire nat
  | Start
  | Stop

fun step ::
  "pylib \<Rightarrow> (string \<Rightarrow> 'r env) \<Rightarrow> ('f, 'a) event \<Rightarrow> ('f, 'a) scheduler \<Rightarrow> ('f, 'a) scheduler" where
  "step L E (AddTask t) s = snd (add_task L (E (task_id t)) t s)"
| "step L E (RemoveTask k) s = snd (remove_task L (E k) k s)"
| "step L E (EnableTask k) s = snd (enable_task L (E k) k s)"
| "step L E (DisableTask k) s = snd (disable_task L (E k) k s)"
| "step L E (RunTask k) s = snd (run_task L (E k) k s)"
| "step L E (Fire h) s = snd (fire (E []) h s)"
| "step L E Start s = snd (start L E s)"
| "step L E Stop s = stop L (E []) s"

fun steps ::
  "pylib \<Rightarrow> ((string \<Rightarrow> 'r env) \<times> ('f, 'a) event) list \<Rightarrow> ('f, 'a) scheduler
    \<Rightarrow> ('f, 'a) scheduler" where
  "steps L [] s = s"
| "steps L ((E, ev) # evs) s = steps L evs (step L E ev s)"

section \<open>Predicates of the statements\<close>

text \<open>
  \<open>within_cap\<close>: the run count has not passed the cap. A scheduler is \<open>capped\<close> when
  every registered task is within its cap.
\<close>

definition within_cap :: "('f, 'a) task \<Rightarrow> bool" where
  "within_cap t = (case max_runs t of None \<Rightarrow> True | Some m \<Rightarrow> run_count t \<le> m)"

definition capped :: "('f, 'a) scheduler \<Rightarrow> bool" where
  "capped s = list_all (\<lambda>(k, t). within_cap t) (tasks s)"

definition adds_within_cap :: "((string \<Rightarrow> 'r env) \<times> ('f, 'a) event) list \<Rightarrow> bool" where
  "adds_within_cap evs =
     list_all (\<lambda>(E, ev). case ev of AddTask t \<Rightarrow> within_cap t | _ \<Rightarrow> True) evs"

definition never_removes :: "string \<Rightarrow> ((string \<Rightarrow> 'r env) \<times> ('f, 'a) event) list \<Rightarrow> bool" where
  "never_removes k evs = list_all (\<lambda>(E, ev). ev \<noteq> RemoveTask k) evs"

text \<open>How often the work-unit of the task \<open>k\<close> has been called.\<close>

definition calls_of :: "string \<Rightarrow> ('f, 'a) scheduler \<Rightarrow> nat" where
  "calls_of k s = length (filter (\<lambda>x. x = k) (called s))"

text \<open>
  \<open>evolves t t'\<close>: what every operation keeps of a task. \<open>sched_frame\<close>: what every branch
  of \<^verbatim>\<open>_schedule_task\<close> leaves alone. \<open>frozen k t s s'\<close>: from \<open>s\<close> to \<open>s'\<close> the task \<open>k\<close>
  kept its counters and its work-unit was not called.
\<close>

definition evolves :: "('f, 'a) task \<Rightarrow> ('f, 'a) task \<Rightarrow> bool" where
  "evolves t t' =
     (max_runs t' = max_runs t \<and> run_count t \<le> run_count t'
      \<and> (within_cap t \<longrightarrow> within_cap t') \<and> (reached_max t \<longrightarrow> run_count t' = run_count t))"

definition sched_frame ::
  "string \<Rightarrow> ('f, 'a) task \<Rightarrow> ('f, 'a) scheduler \<Rightarrow> ('f, 'a) scheduled \<Rightarrow> bool" where
  "sched_frame k t s res =
     (case res of (r, t', s') \<Rightarrow>
        evolves t t' \<and> tasks s' = tasks s \<and> running s' = running s \<and> worker s' = worker s
        \<and> (called s' = called s \<or> (\<not> reached_max t \<and> called s' = called s @ [k])))"

text \<open>
  \<open>one_at_a_time\<close>: the shared task is within its cap, at most one call is in flight,
  and a call in flight began below the cap.
\<close>

definition one_at_a_time :: "('f, 'a) shared \<Rightarrow> bool" where
  "one_at_a_time c =
     (within_cap (obj c) \<and> inflight c \<le> 1 \<and> (inflight c = 1 \<longrightarrow> \<not> reached_max (obj c)))"

definition frozen :: "string \<Rightarrow> ('f, 'a) task \<Rightarrow> ('f, 'a) scheduler \<Rightarrow> ('f, 'a) scheduler \<Rightarrow> bool" where
  "frozen k t s s' =
     (\<exists>t'. get_task s' k = Some t' \<and> run_count t' = run_count t \<and> max_runs t' = max_runs t
        \<and> filter (\<lambda>x. x = k) (called s') = filter (\<lambda>x. x = k) (called s))"

section \<open>Example inputs\<close>

text \<open>
  An example library. Its \<open>job_at\<close> follows the first checks of \<^verbatim>\<open>Job.at\<close> in the package
  \<^verbatim>\<open>schedule\<close>: a job needs the unit days or hours, or a weekday, and a time string of
  digits and colons. Its codec writes a naive time as a decimal number and an aware one
  as two numbers around the letter Z; its \<open>dt_replace\<close> knows the minute and the hour of
  a day and no calendar.
\<close>

definition example_at :: "jobspec \<Rightarrow> string \<Rightarrow> py_exception + jobspec" where
  "example_at js s =
     (if unit_of js \<noteq> Some Days \<and> unit_of js \<noteq> Some Hours \<and> start_day js = None
      then Inl (PyException ''ScheduleValueError'')
      else if \<not> list_all (\<lambda>c. c = CHR '':'' \<or> is_digit c) s
      then Inl (PyException ''ScheduleValueError'')
      else Inr (js \<lparr> at_time := Some s \<rparr>))"

definition show_int :: "int \<Rightarrow> string" where
  "show_int d = (if d < 0 then CHR ''-'' # str_nat (nat (- d)) else str_nat (nat d))"

fun example_iso :: "datetime \<Rightarrow> string" where
  "example_iso (Naive x) = show_int x"
| "example_iso (Aware w off) = show_int w @ ''Z'' @ show_int off"

definition example_fromiso :: "string \<Rightarrow> py_exception + datetime" where
  "example_fromiso s =
     (let a = takeWhile (\<lambda>c. c \<noteq> CHR ''Z'') s; b = drop (Suc (length a)) s in
      if length a = length s then
        (case py_int a of Inr x \<Rightarrow> Inr (Naive x) | Inl e \<Rightarrow> Inl (PyException ''ValueError''))
      else
        (case (py_int a, py_int b) of
           (Inr w, Inr off) \<Rightarrow> Inr (Aware w off)
         | _ \<Rightarrow> Inl (PyException ''ValueError'')))"

definition example_replace ::
  "int \<Rightarrow> int option \<Rightarrow> int option \<Rightarrow> int option \<Rightarrow> int option \<Rightarrow> py_exception + int" where
  "example_replace now mi ho da mo =
     (if da \<noteq> None \<or> mo \<noteq> None then Inl (PyException ''ValueError'')
      else
        (let h = (case ho of None \<Rightarrow> (now mod 86400000000) div 3600000000 | Some x \<Rightarrow> x);
             m = (case mi of None \<Rightarrow> (now mod 3600000000) div 60000000 | Some x \<Rightarrow> x)
         in if 0 \<le> h \<and> h < 24 \<and> 0 \<le> m \<and> m < 60
            then Inr (now - now mod 86400000000 + h * 3600000000 + m * 60000000
                        + now mod 60000000)
            else Inl (PyException ''ValueError'')))"

definition example_lib :: pylib where
  "example_lib = \<lparr> isoformat = example_iso, fromisoformat = example_fromiso,
                   dt_replace = example_replace, job_at = example_at, job_do = Inr \<rparr>"

text \<open>The inputs of a call: the clock, a work-unit that returns 7, a file that is written.\<close>

definition example_env :: "nat env" where
  "example_env = \<lparr> t_reg = 1000, t_delay = 1000, t_limit = 1000, t_done = 2000,
                   outcome = Returns (Some 7), disk = Written \<rparr>"

definition failing_env :: "nat env" where
  "failing_env = example_env \<lparr> outcome := Raises (PyException ''boom'') \<rparr>"


text \<open>
  Tasks: one that runs every 60 seconds, once at most; a cron task with a day of the
  month and a day of the week; one that runs every 60 seconds with no cap; one with an
  offset-aware end time; the first task with a history of one run.
\<close>

definition report_task :: "(unit, unit) task" where
  "report_task = Task ''t1'' ''report'' () None None ''interval'' 60 None None None (Some 1) True"

definition cron_task :: "(unit, unit) task" where
  "cron_task = Task ''c1'' ''digest'' () None None ''cron'' 60 (Some ''0 9 15 * 1'') None None None True"


definition deadline_task :: "(unit, unit) task" where
  "deadline_task =
     Task ''d1'' ''sync'' () None None ''interval'' 60 None None
       (Some (Aware 63900000000000000 0)) None True"

definition history_task :: "(unit, unit) task" where
  "history_task = report_task \<lparr> enabled := False, run_count := 1, last_run := Some (Naive 2000),
                                next_run := Some (Naive 62000000) \<rparr>"

text \<open>
  Schedulers: a new one with no file; after \<^verbatim>\<open>add_task\<close> of the first task; after
  \<^verbatim>\<open>disable_task\<close>; after \<^verbatim>\<open>start\<close>; after one \<^verbatim>\<open>run_task\<close>. \<open>persisted\<close> is a file that
  holds the record of the task with a history.
\<close>

definition empty_scheduler :: "(unit, unit) scheduler" where
  "empty_scheduler = fresh [] 0 Missing"

definition added :: "(unit, unit) scheduler" where
  "added = snd (add_task example_lib example_env report_task empty_scheduler)"

definition disabled :: "(unit, unit) scheduler" where
  "disabled = snd (disable_task example_lib example_env ''t1'' added)"

definition started :: "(unit, unit) scheduler" where
  "started = snd (start example_lib (\<lambda>k. example_env) added)"

definition exhausted :: "(unit, unit) scheduler" where
  "exhausted = snd (run_task example_lib example_env ''t1'' added)"

definition later_events :: "((string \<Rightarrow> nat env) \<times> (unit, unit) event) list" where
  "later_events = [(\<lambda>k. example_env, Start), (\<lambda>k. example_env, Fire 1),
                   (\<lambda>k. example_env, EnableTask ''t1''), (\<lambda>k. example_env, RunTask ''t1'')]"


definition shared_report :: "(unit, unit) shared" where
  "shared_report = \<lparr> obj = report_task, inflight = 0, unit_calls = 0 \<rparr>"

definition overlapping :: "nat tevent list" where
  "overlapping = [Begin 1000, Begin 1000, Return (Returns (Some 7)) 2000,
                  Return (Returns (Some 7)) 2000]"

definition persisted :: file_state where
  "persisted = Content [JDict (to_dict example_lib history_task)]"

section \<open>Fields of the scheduler after the state updates\<close>

lemma map_of_replace_other:
  "k' \<noteq> k \<Longrightarrow> map_of (map (\<lambda>(j, w). if j = k then (j, t) else (j, w)) ts) k' = map_of ts k'"
  by (induction ts) auto

lemma map_of_replace_same:
  "map_of ts k \<noteq> None \<Longrightarrow> map_of (map (\<lambda>(j, w). if j = k then (j, t) else (j, w)) ts) k = Some t"
  by (induction ts) (auto split: if_splits)

lemma map_of_set_item:
  "map_of (set_item k t ts) k' = (if k' = k then Some t else map_of ts k')"
  by (auto simp: set_item_def map_add_def map_of_replace_other map_of_replace_same
           split: option.splits)

lemma length_set_item: "map_of ts k \<noteq> None \<Longrightarrow> length (set_item k t ts) = length ts"
  by (simp add: set_item_def)

lemma say_fields [simp]:
  "tasks (say ls s) = tasks s" "jobs (say ls s) = jobs s" "called (say ls s) = called s"
  "running (say ls s) = running s" "worker (say ls s) = worker s" "thread (say ls s) = thread s"
  "stored (say ls s) = stored s" "next_handle (say ls s) = next_handle s"
  "logged (say ls s) = logged s @ ls"
  by (simp_all add: say_def)

lemma save_tasks_fields [simp]:
  "tasks (save_tasks L w s) = tasks s" "jobs (save_tasks L w s) = jobs s"
  "called (save_tasks L w s) = called s" "running (save_tasks L w s) = running s"
  "worker (save_tasks L w s) = worker s" "thread (save_tasks L w s) = thread s"
  "next_handle (save_tasks L w s) = next_handle s"
  by (cases w; simp add: save_tasks_def)+

lemma logged_save_tasks: "\<exists>ls. logged (save_tasks L w s) = logged s @ ls"
  by (cases w) (simp_all add: save_tasks_def)

lemma put_fields [simp]:
  "tasks (put k t s) = set_item k t (tasks s)" "jobs (put k t s) = jobs s"
  "called (put k t s) = called s" "running (put k t s) = running s"
  "worker (put k t s) = worker s" "thread (put k t s) = thread s"
  "stored (put k t s) = stored s" "next_handle (put k t s) = next_handle s"
  "logged (put k t s) = logged s"
  by (simp_all add: put_def)

lemma ran_in_fields [simp]:
  "tasks (ran_in k r s) = tasks s" "jobs (ran_in k r s) = jobs s"
  "called (ran_in k r s) = called s @ (if invoked r then [k] else [])"
  "running (ran_in k r s) = running s" "worker (ran_in k r s) = worker s"
  "thread (ran_in k r s) = thread s" "stored (ran_in k r s) = stored s"
  "next_handle (ran_in k r s) = next_handle s" "logged (ran_in k r s) = logged s @ said r"
  by (simp_all add: ran_in_def)

lemma cancel_job_fields [simp]:
  "tasks (cancel_job h s) = tasks s" "jobs (cancel_job h s) = filter (\<lambda>j. fst j \<noteq> h) (jobs s)"
  "called (cancel_job h s) = called s" "running (cancel_job h s) = running s"
  "worker (cancel_job h s) = worker s" "thread (cancel_job h s) = thread s"
  "stored (cancel_job h s) = stored s" "next_handle (cancel_job h s) = next_handle s"
  "logged (cancel_job h s) = logged s"
  by (simp_all add: cancel_job_def)

lemma get_task_simps [simp]:
  "get_task (say ls s) k = get_task s k"
  "get_task (save_tasks L w s) k = get_task s k"
  "get_task (ran_in k' r s) k = get_task s k"
  "get_task (cancel_job h s) k = get_task s k"
  "get_task (put k' t s) k = (if k = k' then Some t else get_task s k)"
  by (simp_all add: get_task_def map_of_set_item)

lemmas ops_defs = add_task_def has_task_def fresh_def put_def set_item_def schedule_task_def
  schedule_body_def schedule_interval_def schedule_cron_def schedule_once_def run_at_once_def
  scheduled_ok_def say_def save_tasks_def register_def cancel_job_def every_def seconds_def
  run_task_def enable_task_def disable_task_def remove_task_def ran_in_def run_def
  run_check_def run_call_def reached_max_def past_end_def completed_def timedelta_seconds_def
  dt_plus_def max_instant_def then_do_def Task_def or_empty_def get_task_def get_tasks_def
  task_label_def no_such_task_def

lemmas ex_defs = added_def empty_scheduler_def example_env_def example_lib_def report_task_def

lemma added_state:
  "get_task added ''t1'' = Some (report_task \<lparr> job := Some 0, next_run := Some (Naive 60001000) \<rparr>)"
  "has_task added (task_id report_task)"
  "length (get_tasks added) = 1"
  by (simp_all add: ex_defs ops_defs)

lemma disabled_state:
  "get_task disabled ''t1''
     = Some (report_task \<lparr> enabled := False, next_run := Some (Naive 60001000) \<rparr>)"
  by (simp add: disabled_def ex_defs ops_defs)

lemma started_state:
  "get_task started ''t1'' = Some (report_task \<lparr> job := Some 1, next_run := Some (Naive 60001000) \<rparr>)"
  "worker started" "running started"
  "jobs started = [(1, (every 60000000) \<lparr> unit_of := Some Seconds \<rparr>, ''t1'')]"
  by (simp_all add: started_def ex_defs ops_defs start_def)

lemma exhausted_state:
  "get_task exhausted ''t1''
     = Some (report_task \<lparr> run_count := 1, last_run := Some (Naive 2000),
                           next_run := Some (Naive 60002000), job := Some 0 \<rparr>)"
  "tasks exhausted
     = [(''t1'', report_task \<lparr> run_count := 1, last_run := Some (Naive 2000),
                           next_run := Some (Naive 60002000), job := Some 0 \<rparr>)]"
  "called exhausted = [''t1'']"
  by (simp_all add: exhausted_def ex_defs ops_defs)

section \<open>Task.run\<close>

lemma past_end_raises: "past_end t now = Inl x \<Longrightarrow> x = PyException ''TypeError''"
  by (cases "end_time t"; cases "the (end_time t)") (auto simp: past_end_def)

lemma invoked_run_call [simp]: "invoked (run_call t out now2) = True"
  by (cases out) (auto simp: run_call_def split: prod.splits option.splits)

lemma invoked_run:
  "invoked (run t out now1 now2)
     = (enabled t \<and> \<not> reached_max t \<and> past_end t now1 = Inr False)"
  by (auto simp: run_def run_check_def split: sum.splits bool.splits)

lemma run_disabled:
  "\<not> enabled t \<Longrightarrow> ret (run t out now1 now2) = Inr None \<and> after (run t out now1 now2) = t"
  by (simp add: run_def run_check_def)

lemma run_proceeds:
  "enabled t \<Longrightarrow> \<not> reached_max t \<Longrightarrow> past_end t now1 = Inr False \<Longrightarrow>
   run t out now1 now2 = run_call t out now2"
  by (simp add: run_def run_check_def)

lemma run_fails:
  "enabled t \<Longrightarrow> \<not> reached_max t \<Longrightarrow> past_end t now1 = Inl x \<Longrightarrow>
   run t out now1 now2 = \<lparr> ret = Inl x, after = t, invoked = False, said = [] \<rparr>"
  by (simp add: run_def run_check_def)

lemma run_raises:
  "enabled t \<Longrightarrow> \<not> reached_max t \<Longrightarrow> past_end t now1 = Inr False \<Longrightarrow>
   run t (Raises (PyException c)) now1 now2 =
     \<lparr> ret = Inr None, after = t, invoked = True,
       said = [LogInfo (''Running task '' @ task_id t @ '' ('' @ name t @ '')''),
               LogErrorExc (''Error running task '' @ task_id t @ '' ('' @ name t @ ''): '')
                 (PyException c)] \<rparr>"
  by (simp add: run_proceeds run_call_def)

lemma run_raises_ret:
  "ret (run t (Raises (PyException c)) now1 now2) = Inr None
   \<or> ret (run t (Raises (PyException c)) now1 now2) = Inl (PyException ''TypeError'')"
  by (auto simp: run_def run_check_def run_call_def split: sum.splits bool.splits
           dest: past_end_raises)




section \<open>add_task with an id that exists\<close>

text \<open>
  C4. When the id of the task is in the registry, \<^verbatim>\<open>add_task\<close> returns \<^verbatim>\<open>False\<close>, the
  registry is the same list of the same tasks, so the registered task is unmodified and
  \<^verbatim>\<open>get_tasks()\<close> has the same length; the job list, the file and the calls are the same.
\<close>

theorem add_task_duplicate_rejected:
  assumes "has_task s (task_id t)"
  shows "fst (add_task L e t s) = Inr False
       \<and> tasks (snd (add_task L e t s)) = tasks s
       \<and> get_task (snd (add_task L e t s)) (task_id t) = get_task s (task_id t)
       \<and> length (get_tasks (snd (add_task L e t s))) = length (get_tasks s)
       \<and> jobs (snd (add_task L e t s)) = jobs s
       \<and> stored (snd (add_task L e t s)) = stored s
       \<and> called (snd (add_task L e t s)) = called s"
  using assms by (simp add: add_task_def get_tasks_def)

theorem add_task_duplicate_rejected_witness:
  "has_task added (task_id report_task)
   \<and> fst (add_task example_lib example_env report_task added) = Inr False
   \<and> tasks (snd (add_task example_lib example_env report_task added)) = tasks added
   \<and> length (get_tasks (snd (add_task example_lib example_env report_task added))) = 1"
proof -
  have h: "has_task added (task_id report_task)" by (rule added_state)
  have l: "length (get_tasks added) = 1" by (rule added_state)
  from add_task_duplicate_rejected[OF h, of example_lib example_env] h l show ?thesis by simp
qed

section \<open>run_task and the firing of the loop\<close>

text \<open>
  C1, as the claim states it, fails: \<^verbatim>\<open>run_task\<close> calls \<^verbatim>\<open>Task.run\<close>, whose first test is the
  \<open>enabled\<close> flag. The task of the example is registered, then disabled; it has not
  reached \<open>max_runs\<close> and has no \<open>end_time\<close>; \<^verbatim>\<open>run_task\<close> returns \<^verbatim>\<open>None\<close> and its work-unit
  is not called.
\<close>

theorem run_task_disabled_counterexample:
  "fst (add_task example_lib example_env report_task empty_scheduler) = Inr True
   \<and> fst (disable_task example_lib example_env ''t1'' added) = True
   \<and> map (\<lambda>t. (enabled t, reached_max t, past_end t 1000)) (get_tasks disabled)
        = [(False, False, Inr False)]
   \<and> fst (run_task example_lib example_env ''t1'' disabled) = Inr None
   \<and> called (snd (run_task example_lib example_env ''t1'' disabled)) = []"
  by (simp add: disabled_def ex_defs ops_defs)

text \<open>
  C1, amended. For every registered task, \<^verbatim>\<open>run_task\<close> calls the work-unit exactly when
  the task is enabled, has not reached \<open>max_runs\<close>, and its \<open>end_time\<close> is absent or a
  naive time that has not passed. On a disabled task it returns \<^verbatim>\<open>None\<close> and leaves the
  task as it is. On an enabled task under its cap whose \<open>end_time\<close> is offset-aware,
  the comparison of line 132 raises \<^verbatim>\<open>TypeError\<close>: \<^verbatim>\<open>run_task\<close> logs it, returns \<^verbatim>\<open>None\<close> and
  leaves the task as it is.
\<close>

theorem run_task_respects_enabled:
  assumes "get_task s k = Some t"
  shows "called (snd (run_task L e k s))
           = called s @ (if enabled t \<and> \<not> reached_max t \<and> past_end t (t_limit e) = Inr False
                         then [k] else [])
       \<and> (\<not> enabled t \<longrightarrow>
            fst (run_task L e k s) = Inr None \<and> get_task (snd (run_task L e k s)) k = Some t)
       \<and> (enabled t \<and> \<not> reached_max t \<and> past_end t (t_limit e) = Inl x \<longrightarrow>
            fst (run_task L e k s) = Inr None \<and> get_task (snd (run_task L e k s)) k = Some t
            \<and> LogErrorExc ''Error running task: '' x \<in> set (logged (snd (run_task L e k s))))"
proof -
  from assms have m: "map_of (tasks s) k = Some t" by (simp add: get_task_def)
  have a: "called (snd (run_task L e k s))
           = called s @ (if enabled t \<and> \<not> reached_max t \<and> past_end t (t_limit e) = Inr False
                         then [k] else [])"
    by (auto simp: run_task_def m Let_def invoked_run split: sum.splits)
  have b: "\<not> enabled t \<longrightarrow>
            fst (run_task L e k s) = Inr None \<and> get_task (snd (run_task L e k s)) k = Some t"
    by (auto simp: run_task_def m Let_def run_disabled split: sum.splits)
  have c: "enabled t \<and> \<not> reached_max t \<and> past_end t (t_limit e) = Inl x \<longrightarrow>
            fst (run_task L e k s) = Inr None \<and> get_task (snd (run_task L e k s)) k = Some t
            \<and> LogErrorExc ''Error running task: '' x \<in> set (logged (snd (run_task L e k s)))"
  proof (intro impI)
    assume h: "enabled t \<and> \<not> reached_max t \<and> past_end t (t_limit e) = Inl x"
    then have "x = PyException ''TypeError''" by (auto dest: past_end_raises)
    with h show "fst (run_task L e k s) = Inr None \<and> get_task (snd (run_task L e k s)) k = Some t
            \<and> LogErrorExc ''Error running task: '' x \<in> set (logged (snd (run_task L e k s)))"
      by (simp add: run_task_def m Let_def run_fails)
  qed
  from a b c show ?thesis by simp
qed

lemma deadline_state:
  "get_task (snd (add_task example_lib example_env deadline_task empty_scheduler)) ''d1''
     = Some (deadline_task \<lparr> job := Some 0, next_run := Some (Naive 60001000) \<rparr>)"
  by (simp add: deadline_task_def ex_defs ops_defs)

theorem run_task_respects_enabled_witness:
  "get_task disabled ''t1''
     = Some (report_task \<lparr> enabled := False, next_run := Some (Naive 60001000) \<rparr>)
   \<and> called (snd (run_task example_lib example_env ''t1'' disabled)) = called disabled
   \<and> fst (run_task example_lib example_env ''t1'' disabled) = Inr None
   \<and> get_task added ''t1'' = Some (report_task \<lparr> job := Some 0, next_run := Some (Naive 60001000) \<rparr>)
   \<and> called (snd (run_task example_lib example_env ''t1'' added)) = called added @ [''t1'']
   \<and> end_time deadline_task = Some (Aware 63900000000000000 0)
   \<and> fst (run_task example_lib example_env ''d1''
             (snd (add_task example_lib example_env deadline_task empty_scheduler))) = Inr None
   \<and> called (snd (run_task example_lib example_env ''d1''
                (snd (add_task example_lib example_env deadline_task empty_scheduler))))
        = called (snd (add_task example_lib example_env deadline_task empty_scheduler))"
proof -
  let ?d = "deadline_task \<lparr> job := Some 0, next_run := Some (Naive 60001000) \<rparr>"
  have h: "get_task disabled ''t1''
             = Some (report_task \<lparr> enabled := False, next_run := Some (Naive 60001000) \<rparr>)"
    by (rule disabled_state)
  have g: "get_task added ''t1''
             = Some (report_task \<lparr> job := Some 0, next_run := Some (Naive 60001000) \<rparr>)"
    by (rule added_state)
  have d: "get_task (snd (add_task example_lib example_env deadline_task empty_scheduler)) ''d1''
             = Some ?d"
    by (rule deadline_state)
  have p: "\<not> enabled (report_task \<lparr> enabled := False, next_run := Some (Naive 60001000) \<rparr>)"
    "enabled (report_task \<lparr> job := Some 0, next_run := Some (Naive 60001000) \<rparr>)"
    "\<not> reached_max (report_task \<lparr> job := Some 0, next_run := Some (Naive 60001000) \<rparr>)"
    "past_end (report_task \<lparr> job := Some 0, next_run := Some (Naive 60001000) \<rparr>)
       (t_limit example_env) = Inr False"
    "enabled ?d" "\<not> reached_max ?d"
    "past_end ?d (t_limit example_env) = Inl (PyException ''TypeError'')"
    "end_time deadline_task = Some (Aware 63900000000000000 0)"
    by (simp_all add: report_task_def deadline_task_def Task_def reached_max_def past_end_def)
  from run_task_respects_enabled[OF h, of example_lib example_env]
       run_task_respects_enabled[OF g, of example_lib example_env]
       run_task_respects_enabled[OF d, of example_lib example_env "PyException ''TypeError''"]
       h g p
  show ?thesis by simp
qed

text \<open>
  C2, as the claim states it, fails in its second half: the exception of the work-unit
  is handled inside \<^verbatim>\<open>Task.run\<close>, so \<^verbatim>\<open>run_task\<close> returns \<^verbatim>\<open>None\<close> to its caller and raises
  nothing. In the example the task is enabled and within its limits, its work-unit is
  called and raises.
\<close>

theorem work_unit_exception_counterexample:
  "get_task added ''t1'' = Some (report_task \<lparr> job := Some 0, next_run := Some (Naive 60001000) \<rparr>)
   \<and> outcome failing_env = Raises (PyException ''boom'')
   \<and> fst (run_task example_lib failing_env ''t1'' added) = Inr None
   \<and> called (snd (run_task example_lib failing_env ''t1'' added)) = [''t1'']"
  by (simp add: failing_env_def ex_defs ops_defs)

text \<open>
  C2, amended. For every task whose work-unit raises an exception of class \<^verbatim>\<open>Exception\<close>:
  in a firing driven by the background loop and in \<^verbatim>\<open>run_task\<close> alike, the exception is
  caught and logged by \<^verbatim>\<open>Task.run\<close> and does not propagate; \<^verbatim>\<open>run_task\<close> returns \<^verbatim>\<open>None\<close>.
  Nothing leaves \<^verbatim>\<open>run_task\<close> or the firing in any state of the scheduler; whenever the
  task is registered, enabled and within its limits, the work-unit is called and the
  exception is in the log.
\<close>

theorem work_unit_exception_is_caught_in_run:
  assumes "outcome e = Raises (PyException c)"
  shows "fst (run_task L e k s) = Inr None
       \<and> fst (fire e h s) = None
       \<and> (get_task s k = Some t \<and> enabled t \<and> \<not> reached_max t
            \<and> past_end t (t_limit e) = Inr False \<longrightarrow>
            called (snd (run_task L e k s)) = called s @ [k]
            \<and> LogErrorExc (''Error running task '' @ task_id t @ '' ('' @ name t @ ''): '')
                 (PyException c) \<in> set (logged (snd (run_task L e k s))))
       \<and> (get_task s k = Some t \<and> enabled t \<and> \<not> reached_max t
            \<and> past_end t (t_limit e) = Inr False
            \<and> worker s \<and> running s \<and> find (\<lambda>j. fst j = h) (jobs s) = Some (h, js, k) \<longrightarrow>
            called (snd (fire e h s)) = called s @ [k]
            \<and> LogErrorExc (''Error running task '' @ task_id t @ '' ('' @ name t @ ''): '')
                 (PyException c) \<in> set (logged (snd (fire e h s))))"
proof -
  have a: "fst (run_task L e k s) = Inr None"
  proof (cases "map_of (tasks s) k")
    case None
    then show ?thesis by (simp add: run_task_def)
  next
    case (Some t0)
    have "ret (run t0 (outcome e) (t_limit e) (t_done e)) = Inr None
        \<or> ret (run t0 (outcome e) (t_limit e) (t_done e)) = Inl (PyException ''TypeError'')"
      unfolding assms by (rule run_raises_ret)
    with Some show ?thesis by (auto simp: run_task_def Let_def)
  qed
  have fj: "fst (fire_job e k0 s) = None" for k0
  proof (cases "map_of (tasks s) k0")
    case None
    then show ?thesis by (simp add: fire_job_def)
  next
    case (Some t0)
    have "ret (run t0 (outcome e) (t_limit e) (t_done e)) = Inr None
        \<or> ret (run t0 (outcome e) (t_limit e) (t_done e)) = Inl (PyException ''TypeError'')"
      unfolding assms by (rule run_raises_ret)
    with Some show ?thesis by (auto simp: fire_job_def Let_def)
  qed
  have b: "fst (fire e h s) = None"
    by (auto simp: fire_def fj split: option.splits)
  have c: "get_task s k = Some t \<and> enabled t \<and> \<not> reached_max t
            \<and> past_end t (t_limit e) = Inr False \<longrightarrow>
            called (snd (run_task L e k s)) = called s @ [k]
            \<and> LogErrorExc (''Error running task '' @ task_id t @ '' ('' @ name t @ ''): '')
                 (PyException c) \<in> set (logged (snd (run_task L e k s)))"
  proof (intro impI)
    assume h: "get_task s k = Some t \<and> enabled t \<and> \<not> reached_max t
            \<and> past_end t (t_limit e) = Inr False"
    then have m: "map_of (tasks s) k = Some t" by (simp add: get_task_def)
    have r: "run t (outcome e) (t_limit e) (t_done e) =
       \<lparr> ret = Inr None, after = t, invoked = True,
         said = [LogInfo (''Running task '' @ task_id t @ '' ('' @ name t @ '')''),
                 LogErrorExc (''Error running task '' @ task_id t @ '' ('' @ name t @ ''): '')
                   (PyException c)] \<rparr>"
      using h assms by (simp add: run_raises)
    obtain ls where ls:
      "logged (save_tasks L (disk e)
                 (ran_in k (run t (outcome e) (t_limit e) (t_done e)) (put k t s)))
        = logged (ran_in k (run t (outcome e) (t_limit e) (t_done e)) (put k t s)) @ ls"
      using logged_save_tasks by blast
    show "called (snd (run_task L e k s)) = called s @ [k]
            \<and> LogErrorExc (''Error running task '' @ task_id t @ '' ('' @ name t @ ''): '')
                 (PyException c) \<in> set (logged (snd (run_task L e k s)))"
      using ls by (simp add: run_task_def m r Let_def)
  qed
  have d: "get_task s k = Some t \<and> enabled t \<and> \<not> reached_max t
            \<and> past_end t (t_limit e) = Inr False
            \<and> worker s \<and> running s \<and> find (\<lambda>j. fst j = h) (jobs s) = Some (h, js, k) \<longrightarrow>
            called (snd (fire e h s)) = called s @ [k]
            \<and> LogErrorExc (''Error running task '' @ task_id t @ '' ('' @ name t @ ''): '')
                 (PyException c) \<in> set (logged (snd (fire e h s)))"
  proof (intro impI)
    assume h: "get_task s k = Some t \<and> enabled t \<and> \<not> reached_max t
            \<and> past_end t (t_limit e) = Inr False
            \<and> worker s \<and> running s \<and> find (\<lambda>j. fst j = h) (jobs s) = Some (h, js, k)"
    then have m: "map_of (tasks s) k = Some t" by (simp add: get_task_def)
    have r: "run t (outcome e) (t_limit e) (t_done e) =
       \<lparr> ret = Inr None, after = t, invoked = True,
         said = [LogInfo (''Running task '' @ task_id t @ '' ('' @ name t @ '')''),
                 LogErrorExc (''Error running task '' @ task_id t @ '' ('' @ name t @ ''): '')
                   (PyException c)] \<rparr>"
      using h assms by (simp add: run_raises)
    show "called (snd (fire e h s)) = called s @ [k]
            \<and> LogErrorExc (''Error running task '' @ task_id t @ '' ('' @ name t @ ''): '')
                 (PyException c) \<in> set (logged (snd (fire e h s)))"
      using h by (simp add: fire_def fire_job_def m r Let_def)
  qed
  from a b c d show ?thesis by simp
qed

theorem work_unit_exception_is_caught_in_run_witness:
  "outcome failing_env = Raises (PyException ''boom'')
   \<and> get_task added ''t1'' = Some (report_task \<lparr> job := Some 0, next_run := Some (Naive 60001000) \<rparr>)
   \<and> \<not> worker added
   \<and> fst (run_task example_lib failing_env ''t1'' added) = Inr None
   \<and> called (snd (run_task example_lib failing_env ''t1'' added)) = called added @ [''t1'']
   \<and> LogErrorExc ''Error running task t1 (report): '' (PyException ''boom'')
        \<in> set (logged (snd (run_task example_lib failing_env ''t1'' added)))
   \<and> get_task started ''t1'' = Some (report_task \<lparr> job := Some 1, next_run := Some (Naive 60001000) \<rparr>)
   \<and> fst (fire failing_env 1 started) = None
   \<and> called (snd (fire failing_env 1 started)) = called started @ [''t1'']
   \<and> LogErrorExc ''Error running task t1 (report): '' (PyException ''boom'')
        \<in> set (logged (snd (fire failing_env 1 started)))"
proof -
  let ?a = "report_task \<lparr> job := Some 0, next_run := Some (Naive 60001000) \<rparr>"
  let ?t = "report_task \<lparr> job := Some 1, next_run := Some (Naive 60001000) \<rparr>"
  have o: "outcome failing_env = Raises (PyException ''boom'')"
    by (simp add: failing_env_def)
  have ha: "get_task added ''t1'' = Some ?a \<and> enabled ?a \<and> \<not> reached_max ?a
            \<and> past_end ?a (t_limit failing_env) = Inr False"
    by (simp add: added_state failing_env_def example_env_def report_task_def Task_def
          reached_max_def past_end_def)
  have hs: "get_task started ''t1'' = Some ?t \<and> enabled ?t \<and> \<not> reached_max ?t
            \<and> past_end ?t (t_limit failing_env) = Inr False
            \<and> worker started \<and> running started
            \<and> find (\<lambda>j. fst j = 1) (jobs started)
                 = Some (1, (every 60000000) \<lparr> unit_of := Some Seconds \<rparr>, ''t1'')"
    by (simp add: started_state failing_env_def example_env_def report_task_def Task_def
          reached_max_def past_end_def)
  have w: "\<not> worker added" by (simp add: ex_defs ops_defs)
  have n: "task_id ?a = ''t1''" "name ?a = ''report''" "task_id ?t = ''t1''" "name ?t = ''report''"
    by (simp_all add: report_task_def Task_def)
  from work_unit_exception_is_caught_in_run[OF o, where L = example_lib and k = "''t1''"
         and s = added and t = ?a]
       work_unit_exception_is_caught_in_run[OF o, where L = example_lib and k = "''t1''"
         and s = started and t = ?t and h = 1
         and js = "(every 60000000) \<lparr> unit_of := Some Seconds \<rparr>"]
       o ha hs w n
  show ?thesis by simp
qed

section \<open>disable_task\<close>

text \<open>
  C3, as the claim states it, fails: \<^verbatim>\<open>disable_task\<close> does not assign \<open>next_run\<close>. The
  interval task of the example is disabled and keeps the next run time it had, so
  \<open>next_run\<close> is present on a disabled task that is no one-shot.
\<close>

theorem disable_task_counterexample:
  "fst (disable_task example_lib example_env ''t1'' added) = True
   \<and> map (\<lambda>t. (enabled t, schedule_type t, next_run t)) (get_tasks disabled)
        = [(False, ''interval'', Some (Naive 60001000))]"
  by (simp add: disabled_def ex_defs ops_defs)

text \<open>
  C3, amended. For every existing task, \<^verbatim>\<open>disable_task\<close> returns \<^verbatim>\<open>True\<close>, sets
  \<open>enabled\<close> to \<^verbatim>\<open>False\<close>, takes the job of the task off the job list and sets \<open>job\<close> to
  \<^verbatim>\<open>None\<close>, and leaves \<open>next_run\<close>, \<open>run_count\<close> and \<open>last_run\<close> (and every other field)
  unchanged; no work-unit is called.
\<close>

theorem disable_task_effect:
  assumes "get_task s k = Some t"
  shows "fst (disable_task L e k s) = True
       \<and> get_task (snd (disable_task L e k s)) k = Some (t \<lparr> enabled := False, job := None \<rparr>)
       \<and> map_option (\<lambda>t'. (enabled t', job t', next_run t', run_count t', last_run t'))
            (get_task (snd (disable_task L e k s)) k)
           = Some (False, None, next_run t, run_count t, last_run t)
       \<and> (\<forall>h. job t = Some h \<longrightarrow> h \<notin> fst ` set (jobs (snd (disable_task L e k s))))
       \<and> called (snd (disable_task L e k s)) = called s"
proof -
  from assms have m: "map_of (tasks s) k = Some t" by (simp add: get_task_def)
  show ?thesis
    by (cases "job t") (auto simp: disable_task_def m Let_def)
qed

theorem disable_task_effect_witness:
  "get_task added ''t1'' = Some (report_task \<lparr> job := Some 0, next_run := Some (Naive 60001000) \<rparr>)
   \<and> fst (disable_task example_lib example_env ''t1'' added) = True
   \<and> get_task (snd (disable_task example_lib example_env ''t1'' added)) ''t1''
        = Some (report_task \<lparr> enabled := False, next_run := Some (Naive 60001000) \<rparr>)
   \<and> 0 \<notin> fst ` set (jobs (snd (disable_task example_lib example_env ''t1'' added)))"
proof -
  have h: "get_task added ''t1'' = Some (report_task \<lparr> job := Some 0, next_run := Some (Naive 60001000) \<rparr>)"
    by (rule added_state)
  have j: "job (report_task \<lparr> job := Some 0, next_run := Some (Naive 60001000) \<rparr>) = Some 0"
    by simp
  from disable_task_effect[OF h, of example_lib example_env] h j show ?thesis
    by (simp add: report_task_def Task_def)
qed

section \<open>What _schedule_task keeps\<close>

lemma evolves_refl [simp]: "evolves t t"
  by (simp add: evolves_def)

lemma evolves_same:
  "max_runs t' = max_runs t \<Longrightarrow> run_count t' = run_count t \<Longrightarrow> evolves t t'"
  by (auto simp: evolves_def within_cap_def reached_max_def split: option.splits)

lemma reached_max_cong:
  "max_runs t' = max_runs t \<Longrightarrow> run_count t' = run_count t \<Longrightarrow> reached_max t' = reached_max t"
  by (auto simp: reached_max_def split: option.splits)

lemma evolves_trans: "evolves t t' \<Longrightarrow> evolves t' t'' \<Longrightarrow> evolves t t''"
  by (auto simp: evolves_def reached_max_def split: option.splits)

lemma evolves_reached: "evolves t t' \<Longrightarrow> reached_max t \<Longrightarrow> reached_max t'"
  by (auto simp: evolves_def reached_max_def split: option.splits)

lemma run_check_skipped:
  "run_check t now1 = Skipped t' ls \<Longrightarrow> t' = t \<or> t' = t \<lparr> enabled := False \<rparr>"
  by (auto simp: run_check_def split: if_splits sum.splits bool.splits)

lemma run_check_proceeds:
  "run_check t now1 = Proceeds \<Longrightarrow> enabled t \<and> \<not> reached_max t"
  by (auto simp: run_check_def split: if_splits sum.splits bool.splits)

lemma completed_counts:
  "max_runs (snd (completed t now2)) = max_runs t
   \<and> run_count (snd (completed t now2)) = run_count t + 1"
  by (auto simp: completed_def Let_def split: sum.splits)

lemma run_call_counts:
  "max_runs (after (run_call t out now2)) = max_runs t
   \<and> (run_count (after (run_call t out now2)) = run_count t
      \<or> run_count (after (run_call t out now2)) = run_count t + 1)"
proof (cases out)
  case (Returns v)
  obtain x t' where c: "completed t now2 = (x, t')" by (cases "completed t now2")
  with completed_counts[of t now2] Returns show ?thesis
    by (cases x) (auto simp: run_call_def)
next
  case (Raises x)
  then show ?thesis by (simp add: run_call_def)
qed

lemma evolves_run_call: "\<not> reached_max t \<Longrightarrow> evolves t (after (run_call t out now2))"
  using run_call_counts[of t out now2]
  by (auto simp: evolves_def within_cap_def reached_max_def split: option.splits)

lemma evolves_run: "evolves t (after (run t out now1 now2))"
proof (cases "run_check t now1")
  case (Skipped t' ls)
  with run_check_skipped[OF Skipped] show ?thesis
    by (auto simp: run_def evolves_def within_cap_def reached_max_def split: option.splits)
next
  case Proceeds
  with run_check_proceeds[OF Proceeds] show ?thesis
    by (simp add: run_def evolves_run_call)
next
  case (Failed x)
  then show ?thesis by (simp add: run_def)
qed

lemma within_cap_update [simp]:
  "within_cap (t \<lparr> enabled := b \<rparr>) = within_cap t"
  "within_cap (t \<lparr> job := j \<rparr>) = within_cap t"
  "within_cap (t \<lparr> next_run := n \<rparr>) = within_cap t"
  by (auto simp: within_cap_def split: option.splits)

lemma reached_max_update [simp]:
  "reached_max (t \<lparr> enabled := b \<rparr>) = reached_max t"
  "reached_max (t \<lparr> job := j \<rparr>) = reached_max t"
  "reached_max (t \<lparr> next_run := n \<rparr>) = reached_max t"
  by (auto simp: reached_max_def split: option.splits)

text \<open>What every branch of \<^verbatim>\<open>_schedule_task\<close> leaves alone.\<close>

lemma sched_frame_ok:
  "evolves t t' \<Longrightarrow> tasks s' = tasks s \<Longrightarrow> running s' = running s \<Longrightarrow> worker s' = worker s
   \<Longrightarrow> called s' = called s \<Longrightarrow> sched_frame k t s (scheduled_ok t' s')"
  by (simp add: sched_frame_def scheduled_ok_def)

lemma register_fields:
  "register js k s = (h, s') \<Longrightarrow>
     tasks s' = tasks s \<and> running s' = running s \<and> worker s' = worker s \<and> called s' = called s
     \<and> h = next_handle s \<and> jobs s' = jobs s @ [(h, js, k)]"
  by (auto simp: register_def)

lemma frame_interval: "sched_frame k t s (schedule_interval L e k t s)"
  by (auto simp: schedule_interval_def sched_frame_def scheduled_ok_def register_def evolves_same
           split: sum.splits)

lemma frame_cron: "sched_frame k t s (schedule_cron L e k t s)"
  by (auto simp: schedule_cron_def sched_frame_def scheduled_ok_def register_def evolves_same
           split: sum.splits option.splits list.splits)

lemma frame_run_at_once: "sched_frame k t s (run_at_once e k t s)"
proof -
  let ?r = "run t (outcome e) (t_limit e) (t_done e)"
  have ev: "evolves t (after ?r)" by (rule evolves_run)
  have ev2: "evolves t ((after ?r) \<lparr> next_run := None, enabled := False \<rparr>)"
    by (rule evolves_trans[OF ev]) (simp add: evolves_same)
  show ?thesis
    using ev ev2
    by (auto simp: run_at_once_def sched_frame_def scheduled_ok_def Let_def invoked_run
             split: sum.splits)
qed

lemma frame_once: "sched_frame k t s (schedule_once L e k t s)"
proof -
  have a: "\<And>st js. sched_frame k t s
          (case register js k s of
             (h, s') \<Rightarrow> scheduled_ok (t \<lparr> job := Some h, next_run := Some st \<rparr>) s')"
    by (auto simp: sched_frame_def scheduled_ok_def register_def evolves_same)
  have b: "\<And>x. sched_frame k t s (Inl x, t, s)" by (simp add: sched_frame_def)
  show ?thesis
    by (simp add: schedule_once_def frame_run_at_once a b
             split: option.splits sum.splits bool.splits)
qed

lemma frame_weaken:
  "sched_frame k t1 s1 res \<Longrightarrow> evolves t t1 \<Longrightarrow> reached_max t1 = reached_max t \<Longrightarrow>
   tasks s1 = tasks s \<Longrightarrow> running s1 = running s \<Longrightarrow> worker s1 = worker s \<Longrightarrow>
   called s1 = called s \<Longrightarrow> sched_frame k t s res"
  by (auto simp: sched_frame_def intro: evolves_trans)

lemma frame_body: "sched_frame k t s (schedule_body L e k t s)"
proof -
  obtain t1 s1 where c: "(case job t of Some h \<Rightarrow> (t \<lparr> job := None \<rparr>, cancel_job h s)
                                      | None \<Rightarrow> (t, s)) = (t1, s1)"
    by (cases "case job t of Some h \<Rightarrow> (t \<lparr> job := None \<rparr>, cancel_job h s) | None \<Rightarrow> (t, s)")
  then have p: "evolves t t1" "reached_max t1 = reached_max t" "tasks s1 = tasks s"
    "running s1 = running s" "worker s1 = worker s" "called s1 = called s"
    by (auto simp: evolves_same reached_max_def split: option.splits)
  have "sched_frame k t1 s1
          (if \<not> enabled t1 then
             (Inr True, t1,
              say [LogInfo (task_label t1 @ '' is disabled, skipping scheduling'')] s1)
           else if schedule_type t1 = ''interval'' then schedule_interval L e k t1 s1
           else if schedule_type t1 = ''cron'' then schedule_cron L e k t1 s1
           else if schedule_type t1 = ''once'' then schedule_once L e k t1 s1
           else scheduled_ok t1 s1)"
    by (simp add: frame_interval frame_cron frame_once sched_frame_ok)
       (simp add: sched_frame_def)
  then have "sched_frame k t s
          (if \<not> enabled t1 then
             (Inr True, t1,
              say [LogInfo (task_label t1 @ '' is disabled, skipping scheduling'')] s1)
           else if schedule_type t1 = ''interval'' then schedule_interval L e k t1 s1
           else if schedule_type t1 = ''cron'' then schedule_cron L e k t1 s1
           else if schedule_type t1 = ''once'' then schedule_once L e k t1 s1
           else scheduled_ok t1 s1)"
    using p by (rule frame_weaken)
  then show ?thesis
    by (simp add: schedule_body_def c)
qed

lemma frame_task: "sched_frame k t s (schedule_task L e k t s)"
  using frame_body[of k t s L e]
  by (auto simp: schedule_task_def sched_frame_def split: prod.splits sum.splits)

lemma schedule_task_not_caught:
  "schedule_task L e k t s = (Inl x, t', s') \<Longrightarrow> \<not> caught x"
  by (auto simp: schedule_task_def split: prod.splits sum.splits if_splits)

lemma schedule_task_frame:
  assumes "schedule_task L e k t s = (r, t', s')"
  shows "evolves t t'" "tasks s' = tasks s" "running s' = running s" "worker s' = worker s"
    "called s' = called s \<or> (\<not> reached_max t \<and> called s' = called s @ [k])"
  using frame_task[of k t s L e] assms by (auto simp: sched_frame_def)

section \<open>Registration of a cron task\<close>

text \<open>
  C5, as the claim states it, fails: \<^verbatim>\<open>add_task\<close> does not look at the result of
  \<^verbatim>\<open>_schedule_task\<close>, and no code validates a cron expression beyond the count of its
  fields. The task of the example has the expression \<^verbatim>\<open>0 9 15 * 1\<close>, with a day of the
  month and a day of the week; the library refuses the job, \<^verbatim>\<open>_schedule_task\<close> logs the
  error, and \<^verbatim>\<open>add_task\<close> returns \<^verbatim>\<open>True\<close> with the task registered and no job.
\<close>

theorem cron_registration_counterexample:
  "cron cron_task = Some ''0 9 15 * 1''
   \<and> py_split ''0 9 15 * 1'' = [''0'', ''9'', ''15'', ''*'', ''1'']
   \<and> fst (add_task example_lib example_env cron_task empty_scheduler) = Inr True
   \<and> get_tasks (snd (add_task example_lib example_env cron_task empty_scheduler)) = [cron_task]
   \<and> jobs (snd (add_task example_lib example_env cron_task empty_scheduler)) = []"
  by (simp add: cron_task_def ex_defs ops_defs py_split_def is_space_def cron_job_def hhmm_def zfill2_def
        example_at_def)

text \<open>
  C5, amended. For every cron task with a new id, whatever its expression (also one with
  a day of the month and a day of the week), registration does not fail with a validation
  error: \<^verbatim>\<open>add_task\<close> stores the task and returns \<^verbatim>\<open>True\<close>, whether or not a timer could be
  registered; an exception leaves \<^verbatim>\<open>add_task\<close> only when it is not of class \<^verbatim>\<open>Exception\<close>.
\<close>

theorem add_task_accepts_any_cron:
  assumes "\<not> has_task s (task_id t)" and "schedule_type t = ''cron''"
  shows "(fst (add_task L e t s) = Inr True
          \<or> (\<exists>x. fst (add_task L e t s) = Inl x \<and> \<not> caught x))
       \<and> has_task (snd (add_task L e t s)) (task_id t)"
proof -
  obtain r t' s' where st: "schedule_task L e (task_id t) t (put (task_id t) t s) = (r, t', s')"
    by (cases "schedule_task L e (task_id t) t (put (task_id t) t s)")
  show ?thesis
  proof (cases r)
    case (Inl x)
    with st have "\<not> caught x" by (auto dest: schedule_task_not_caught)
    with st Inl assms(1) show ?thesis
      by (simp add: add_task_def has_task_def map_of_set_item)
  next
    case (Inr b)
    with st assms(1) show ?thesis
      by (simp add: add_task_def has_task_def map_of_set_item)
  qed
qed

theorem add_task_accepts_any_cron_witness:
  "\<not> has_task empty_scheduler (task_id cron_task) \<and> schedule_type cron_task = ''cron''
   \<and> fst (add_task example_lib example_env cron_task empty_scheduler) = Inr True
   \<and> has_task (snd (add_task example_lib example_env cron_task empty_scheduler)) ''c1''"
proof -
  have h: "\<not> has_task empty_scheduler (task_id cron_task)" "schedule_type cron_task = ''cron''"
    by (simp_all add: cron_task_def ex_defs ops_defs)
  have c: "fst (add_task example_lib example_env cron_task empty_scheduler) = Inr True"
    by (simp add: cron_task_def ex_defs ops_defs py_split_def is_space_def cron_job_def hhmm_def zfill2_def
        example_at_def)
  have i: "task_id cron_task = ''c1''" by (simp add: cron_task_def Task_def)
  from add_task_accepts_any_cron[OF h, of example_lib example_env] h c i show ?thesis by simp
qed

section \<open>The next run time of an interval task\<close>








section \<open>The cap on the run count\<close>

subsection \<open>Every operation keeps a capped scheduler capped\<close>

lemma list_all_set_item: "list_all P ts \<Longrightarrow> P (k, t) \<Longrightarrow> list_all P (set_item k t ts)"
  by (auto simp: set_item_def list_all_iff)

lemma map_of_list_all: "map_of ts k = Some t \<Longrightarrow> list_all P ts \<Longrightarrow> P (k, t)"
  by (auto simp: list_all_iff dest: map_of_SomeD)

lemma capped_task: "capped s \<Longrightarrow> map_of (tasks s) k = Some t \<Longrightarrow> within_cap t"
  by (auto simp: capped_def dest: map_of_list_all)

lemma capped_put: "capped s \<Longrightarrow> within_cap t \<Longrightarrow> capped (put k t s)"
  by (simp add: capped_def list_all_set_item)

lemma capped_same: "tasks s' = tasks s \<Longrightarrow> capped s' = capped s"
  by (simp add: capped_def)

lemma evolves_cap: "evolves t t' \<Longrightarrow> within_cap t \<Longrightarrow> within_cap t'"
  by (simp add: evolves_def)

lemma within_cap_cong:
  "max_runs t' = max_runs t \<Longrightarrow> run_count t' = run_count t \<Longrightarrow> within_cap t' = within_cap t"
  by (auto simp: within_cap_def split: option.splits)

lemma schedule_put_capped:
  assumes "capped s" and "within_cap t" and "tasks s0 = tasks s"
    and "schedule_task L e k t s0 = (r, t', s')"
  shows "capped (put k t' s')"
proof -
  from schedule_task_frame[OF assms(4)] have "evolves t t'" "tasks s' = tasks s0" by auto
  with assms show ?thesis
    by (auto simp: capped_def intro!: list_all_set_item dest: evolves_cap)
qed

lemma add_task_capped:
  assumes "capped s" and "within_cap t"
  shows "capped (snd (add_task L e t s))"
proof (cases "has_task s (task_id t)")
  case True
  with assms show ?thesis by (simp add: add_task_def capped_def)
next
  case False
  obtain r t' s' where st: "schedule_task L e (task_id t) t (put (task_id t) t s) = (r, t', s')"
    by (cases "schedule_task L e (task_id t) t (put (task_id t) t s)")
  have "capped (put (task_id t) t s)" using assms by (rule capped_put)
  then have c: "capped (put (task_id t) t' s')"
    using assms(2) _ st by (rule schedule_put_capped) simp
  then have "capped (say ls (put (task_id t) t' s'))"
      "capped (say ls (save_tasks L w (put (task_id t) t' s')))" for ls w
    by (simp_all add: capped_def)
  with c False st show ?thesis
    by (auto simp: add_task_def split: sum.splits)
qed

lemma enable_task_capped:
  assumes "capped s"
  shows "capped (snd (enable_task L e k s))"
proof (cases "map_of (tasks s) k")
  case None
  with assms show ?thesis by (simp add: enable_task_def capped_def)
next
  case (Some t)
  obtain r t' s' where st: "schedule_task L e k (t \<lparr> enabled := True \<rparr>) s = (r, t', s')"
    by (cases "schedule_task L e k (t \<lparr> enabled := True \<rparr>) s")
  have "within_cap (t \<lparr> enabled := True \<rparr>)"
    using capped_task[OF assms Some] by simp
  with assms have c: "capped (put k t' s')"
    using _ st by (rule schedule_put_capped) simp
  then have "capped (say ls (put k t' s'))"
      "capped (say ls (save_tasks L w (put k t' s')))" for ls w
    by (simp_all add: capped_def)
  with c Some st show ?thesis
    by (auto simp: enable_task_def split: sum.splits)
qed

lemma disable_task_capped:
  assumes "capped s"
  shows "capped (snd (disable_task L e k s))"
proof (cases "map_of (tasks s) k")
  case None
  with assms show ?thesis by (simp add: disable_task_def capped_def)
next
  case (Some t)
  have "within_cap (t \<lparr> enabled := False \<rparr>)" "within_cap (t \<lparr> enabled := False, job := None \<rparr>)"
    using capped_task[OF assms Some] by simp_all
  with assms Some show ?thesis
    by (cases "job t") (auto simp: disable_task_def capped_def Let_def intro!: list_all_set_item)
qed

lemma remove_task_capped:
  assumes "capped s"
  shows "capped (snd (remove_task L e k s))"
  using assms
  by (cases "map_of (tasks s) k")
     (auto simp: remove_task_def capped_def Let_def list_all_iff split: option.splits)

lemma run_in_capped:
  assumes "capped s" and "map_of (tasks s) k = Some t"
  shows "capped (ran_in k (run t out now1 now2) (put k (after (run t out now1 now2)) s))"
proof -
  have "within_cap (after (run t out now1 now2))"
    using evolves_run capped_task[OF assms] by (rule evolves_cap)
  with assms(1) show ?thesis
    by (auto simp: capped_def intro!: list_all_set_item)
qed

lemma run_task_capped:
  assumes "capped s"
  shows "capped (snd (run_task L e k s))"
proof (cases "map_of (tasks s) k")
  case None
  with assms show ?thesis by (simp add: run_task_def capped_def)
next
  case (Some t)
  from run_in_capped[OF assms Some, of "outcome e" "t_limit e" "t_done e"] Some
  show ?thesis
    by (auto simp: run_task_def Let_def capped_def split: sum.splits)
qed

lemma fire_job_capped:
  assumes "capped s"
  shows "capped (snd (fire_job e k s))"
proof (cases "map_of (tasks s) k")
  case None
  with assms show ?thesis by (simp add: fire_job_def)
next
  case (Some t)
  from run_in_capped[OF assms Some, of "outcome e" "t_limit e" "t_done e"] Some
  show ?thesis by (auto simp: fire_job_def Let_def capped_def split: sum.splits)
qed

lemma fire_capped: "capped s \<Longrightarrow> capped (snd (fire e h s))"
  by (auto simp: fire_def fire_job_capped split: option.splits)

lemma schedule_all_capped: "capped s \<Longrightarrow> capped (snd (schedule_all L E ks s))"
proof (induction ks arbitrary: s)
  case Nil
  then show ?case by simp
next
  case (Cons k ks)
  show ?case
  proof (cases "map_of (tasks s) k")
    case None
    with Cons show ?thesis by simp
  next
    case (Some t)
    obtain r t' s' where st: "schedule_task L (E k) k t s = (r, t', s')"
      by (cases "schedule_task L (E k) k t s")
    have c: "capped (put k t' s')"
      using Cons.prems capped_task[OF Cons.prems Some] _ st by (rule schedule_put_capped) simp
    show ?thesis
    proof (cases r)
      case (Inl x)
      with Some st c show ?thesis by simp
    next
      case (Inr b)
      with Some st Cons.IH[OF c] show ?thesis by simp
    qed
  qed
qed

lemma start_capped:
  assumes "capped s"
  shows "capped (snd (start L E s))"
proof -
  have "capped (s \<lparr> running := True \<rparr>)" using assms by (simp add: capped_def)
  from schedule_all_capped[OF this, of L E "map fst (tasks s)"] assms
  show ?thesis
    by (auto simp: start_def capped_def split: prod.splits option.splits)
qed

lemma stop_capped: "capped s \<Longrightarrow> capped (stop L e s)"
  by (simp add: stop_def capped_def)

lemma step_capped:
  assumes "capped s" and "case ev of AddTask t \<Rightarrow> within_cap t | _ \<Rightarrow> True"
  shows "capped (step L E ev s)"
  using assms
  by (cases ev)
     (simp_all add: add_task_capped remove_task_capped enable_task_capped disable_task_capped
        run_task_capped fire_capped start_capped stop_capped)

lemma steps_capped: "capped s \<Longrightarrow> adds_within_cap evs \<Longrightarrow> capped (steps L evs s)"
proof (induction evs arbitrary: s)
  case Nil
  then show ?case by simp
next
  case (Cons a evs)
  obtain E ev where a: "a = (E, ev)" by (cases a)
  with Cons.prems have "capped (step L E ev s)" "adds_within_cap evs"
    by (auto simp: adds_within_cap_def intro: step_capped)
  with Cons.IH a show ?case by simp
qed

subsection \<open>A task that reached its cap is not run again\<close>

lemma frozen_wrap [simp]:
  "frozen k t s (say ls s') = frozen k t s s'"
  "frozen k t s (save_tasks L w s') = frozen k t s s'"
  by (simp_all add: frozen_def)

lemma frozen_refl: "get_task s k = Some t \<Longrightarrow> frozen k t s s"
  by (simp add: frozen_def)

lemma frozen_same_fields:
  "get_task s' k = get_task s k \<Longrightarrow> called s' = called s \<Longrightarrow> get_task s k = Some t
   \<Longrightarrow> frozen k t s s'"
  by (simp add: frozen_def)

lemma frozen_trans:
  assumes "frozen k t s s1" and "\<And>t1. get_task s1 k = Some t1 \<Longrightarrow> reached_max t1 \<Longrightarrow> frozen k t1 s1 s2"
    and "reached_max t"
  shows "frozen k t s s2"
proof -
  from assms(1) obtain t1 where t1: "get_task s1 k = Some t1" "run_count t1 = run_count t"
    "max_runs t1 = max_runs t"
    "filter (\<lambda>x. x = k) (called s1) = filter (\<lambda>x. x = k) (called s)"
    by (auto simp: frozen_def)
  then have "reached_max t1" using assms(3) reached_max_cong[of t1 t] by simp
  with assms(2) t1 have "frozen k t1 s1 s2" by simp
  with t1 show ?thesis by (auto simp: frozen_def)
qed

lemma sched_frozen_same:
  assumes "reached_max t" and "run_count t0 = run_count t" and "max_runs t0 = max_runs t"
    and "called s0 = called s" and "schedule_task L e k t0 s0 = (r, t', s')"
  shows "frozen k t s (put k t' s')"
proof -
  have rm: "reached_max t0" using assms(1-3) reached_max_cong[of t0 t] by simp
  from schedule_task_frame[OF assms(5)] rm
  have "evolves t0 t'" "called s' = called s0" by auto
  with rm assms show ?thesis by (simp add: frozen_def evolves_def)
qed

lemma sched_frozen_other:
  assumes "get_task s0 k = Some t" and "k0 \<noteq> k"
    and "called s0 = called s" and "schedule_task L e k0 t0 s0 = (r, t', s')"
  shows "frozen k t s (put k0 t' s')"
proof -
  from schedule_task_frame[OF assms(4)]
  have "tasks s' = tasks s0" "called s' = called s0 \<or> called s' = called s0 @ [k0]" by auto
  with assms show ?thesis by (auto simp: frozen_def get_task_def map_of_set_item)
qed

lemma add_task_frozen:
  assumes "get_task s k = Some t" and "reached_max t"
  shows "frozen k t s (snd (add_task L e t0 s))"
proof (cases "has_task s (task_id t0)")
  case True
  with assms show ?thesis by (simp add: add_task_def frozen_refl)
next
  case False
  with assms(1) have ne: "task_id t0 \<noteq> k" by (auto simp: has_task_def get_task_def)
  obtain r t' s' where st: "schedule_task L e (task_id t0) t0 (put (task_id t0) t0 s) = (r, t', s')"
    by (cases "schedule_task L e (task_id t0) t0 (put (task_id t0) t0 s)")
  have "get_task (put (task_id t0) t0 s) k = Some t" using assms(1) ne by simp
  then have "frozen k t s (put (task_id t0) t' s')"
    using ne _ st by (rule sched_frozen_other) simp
  with False st show ?thesis by (auto simp: add_task_def split: sum.splits)
qed

lemma map_of_filter_other:
  "k0 \<noteq> k \<Longrightarrow> map_of (filter (\<lambda>(k', v). k' \<noteq> k0) ts) k = map_of ts k"
  by (induction ts) auto

lemma remove_task_frozen:
  assumes "get_task s k = Some t" and "k0 \<noteq> k"
  shows "frozen k t s (snd (remove_task L e k0 s))"
  using assms
  by (cases "map_of (tasks s) k0")
     (auto simp: remove_task_def Let_def frozen_def get_task_def map_of_filter_other
           split: option.splits)

lemma enable_task_frozen:
  assumes "get_task s k = Some t" and "reached_max t"
  shows "frozen k t s (snd (enable_task L e k0 s))"
proof (cases "map_of (tasks s) k0")
  case None
  with assms show ?thesis by (simp add: enable_task_def frozen_refl)
next
  case (Some t0)
  obtain r t' s' where st: "schedule_task L e k0 (t0 \<lparr> enabled := True \<rparr>) s = (r, t', s')"
    by (cases "schedule_task L e k0 (t0 \<lparr> enabled := True \<rparr>) s")
  have "frozen k t s (put k0 t' s')"
  proof (cases "k0 = k")
    case True
    with Some assms(1) have "t0 = t" by (simp add: get_task_def)
    with True st assms(2) show ?thesis
      by (auto intro!: sched_frozen_same[where ?t0.0 = "t \<lparr> enabled := True \<rparr>" and ?s0.0 = s])
  next
    case False
    with assms(1) st show ?thesis by (auto intro!: sched_frozen_other[where ?s0.0 = s])
  qed
  with Some st show ?thesis by (auto simp: enable_task_def split: sum.splits)
qed

lemma disable_task_frozen:
  assumes "get_task s k = Some t"
  shows "frozen k t s (snd (disable_task L e k0 s))"
proof (cases "map_of (tasks s) k0")
  case None
  with assms show ?thesis by (simp add: disable_task_def frozen_refl)
next
  case (Some t0)
  show ?thesis
  proof (cases "k0 = k")
    case True
    with Some assms have "t0 = t" by (simp add: get_task_def)
    with True Some show ?thesis
      by (cases "job t") (auto simp: disable_task_def Let_def frozen_def)
  next
    case False
    with Some assms show ?thesis
      by (cases "job t0") (auto simp: disable_task_def Let_def frozen_def)
  qed
qed

lemma run_in_frozen:
  assumes "get_task s k = Some t" and "reached_max t" and "map_of (tasks s) k0 = Some t0"
  shows "frozen k t s (ran_in k0 (run t0 out now1 now2) (put k0 (after (run t0 out now1 now2)) s))"
proof (cases "k0 = k")
  case True
  with assms have e: "t0 = t" by (simp add: get_task_def)
  have "evolves t (after (run t out now1 now2))" by (rule evolves_run)
  with assms(2) have "run_count (after (run t out now1 now2)) = run_count t"
    "max_runs (after (run t out now1 now2)) = max_runs t"
    by (simp_all add: evolves_def)
  with True e assms(2) show ?thesis by (simp add: frozen_def invoked_run)
next
  case False
  with assms(1) show ?thesis by (simp add: frozen_def)
qed

lemma run_task_frozen:
  assumes "get_task s k = Some t" and "reached_max t"
  shows "frozen k t s (snd (run_task L e k0 s))"
proof (cases "map_of (tasks s) k0")
  case None
  with assms show ?thesis by (simp add: run_task_def frozen_refl)
next
  case (Some t0)
  from run_in_frozen[OF assms Some, of "outcome e" "t_limit e" "t_done e"] Some
  show ?thesis by (auto simp: run_task_def Let_def split: sum.splits)
qed

lemma frozen_worker [simp]: "frozen k t s (s' \<lparr> worker := b \<rparr>) = frozen k t s s'"
  by (simp add: frozen_def get_task_def)

lemma fire_job_frozen:
  assumes "get_task s k = Some t" and "reached_max t"
  shows "frozen k t s (snd (fire_job e k0 s))"
proof (cases "map_of (tasks s) k0")
  case None
  with assms show ?thesis by (simp add: fire_job_def frozen_refl)
next
  case (Some t0)
  from run_in_frozen[OF assms Some, of "outcome e" "t_limit e" "t_done e"] Some
  show ?thesis by (auto simp: fire_job_def Let_def split: sum.splits)
qed

lemma fire_frozen:
  assumes "get_task s k = Some t" and "reached_max t"
  shows "frozen k t s (snd (fire e h s))"
proof (cases "find (\<lambda>j. fst j = h) (jobs s)")
  case None
  with assms show ?thesis by (simp add: fire_def frozen_refl)
next
  case (Some j)
  obtain h' js k0 where "j = (h', js, k0)" by (cases j)
  with Some assms fire_job_frozen[OF assms, of e k0] show ?thesis
    by (simp add: fire_def frozen_refl)
qed

lemma schedule_all_frozen:
  "get_task s k = Some t \<Longrightarrow> reached_max t \<Longrightarrow> frozen k t s (snd (schedule_all L E ks s))"
proof (induction ks arbitrary: s t)
  case Nil
  then show ?case by (simp add: frozen_refl)
next
  case (Cons k0 ks)
  show ?case
  proof (cases "map_of (tasks s) k0")
    case None
    with Cons show ?thesis by simp
  next
    case (Some t0)
    obtain r t' s' where st: "schedule_task L (E k0) k0 t0 s = (r, t', s')"
      by (cases "schedule_task L (E k0) k0 t0 s")
    have f: "frozen k t s (put k0 t' s')"
    proof (cases "k0 = k")
      case True
      with Some Cons.prems(1) have "t0 = t" by (simp add: get_task_def)
      with True st Cons.prems(2) show ?thesis
        by (auto intro!: sched_frozen_same[where ?t0.0 = t and ?s0.0 = s])
    next
      case False
      with Cons.prems(1) st show ?thesis by (auto intro!: sched_frozen_other[where ?s0.0 = s])
    qed
    show ?thesis
    proof (cases r)
      case (Inl x)
      with Some st f show ?thesis by simp
    next
      case (Inr b)
      have "frozen k t s (snd (schedule_all L E ks (put k0 t' s')))"
        using f Cons.IH Cons.prems(2) by (rule frozen_trans)
      with Some st Inr show ?thesis by simp
    qed
  qed
qed

lemma frozen_fields:
  "tasks s2 = tasks s1 \<Longrightarrow> called s2 = called s1 \<Longrightarrow> frozen k t s s2 = frozen k t s s1"
  by (simp add: frozen_def get_task_def)

lemma frozen_from_running:
  "frozen k t (s \<lparr> running := b \<rparr>) s' = frozen k t s s'"
  by (simp add: frozen_def)

lemma start_frozen:
  assumes "get_task s k = Some t" and "reached_max t"
  shows "frozen k t s (snd (start L E s))"
proof (cases "running s")
  case True
  with assms show ?thesis by (simp add: start_def frozen_refl)
next
  case False
  obtain x s' where sa: "schedule_all L E (map fst (tasks s)) (s \<lparr> running := True \<rparr>) = (x, s')"
    by (cases "schedule_all L E (map fst (tasks s)) (s \<lparr> running := True \<rparr>)")
  have "get_task (s \<lparr> running := True \<rparr>) k = Some t" using assms(1) by (simp add: get_task_def)
  from schedule_all_frozen[OF this assms(2), of L E "map fst (tasks s)"] sa
  have f: "frozen k t s s'" by (simp add: frozen_from_running)
  have "frozen k t s (s' \<lparr> thread := True, worker := True \<rparr>) = frozen k t s s'"
    by (rule frozen_fields) simp_all
  with f False sa show ?thesis
    by (cases x) (simp_all add: start_def)
qed

lemma stop_frozen:
  assumes "get_task s k = Some t"
  shows "frozen k t s (stop L e s)"
proof -
  have "get_task (s \<lparr> running := False, thread := False, worker := False \<rparr>) k = Some t"
    using assms by (simp add: get_task_def)
  then have "frozen k t s (s \<lparr> running := False, thread := False, worker := False \<rparr>)"
    by (simp add: frozen_def)
  with assms show ?thesis by (simp add: stop_def frozen_refl del: frozen_worker)
qed

lemma step_frozen:
  assumes "get_task s k = Some t" and "reached_max t" and "ev \<noteq> RemoveTask k"
  shows "frozen k t s (step L E ev s)"
  using assms
  by (cases ev)
     (simp_all add: add_task_frozen remove_task_frozen enable_task_frozen disable_task_frozen
        run_task_frozen fire_frozen start_frozen stop_frozen)

lemma steps_frozen:
  "get_task s k = Some t \<Longrightarrow> reached_max t \<Longrightarrow> never_removes k evs
   \<Longrightarrow> frozen k t s (steps L evs s)"
proof (induction evs arbitrary: s t)
  case Nil
  then show ?case by (simp add: frozen_refl)
next
  case (Cons a evs)
  obtain E ev where a: "a = (E, ev)" by (cases a)
  with Cons.prems have ne: "ev \<noteq> RemoveTask k" and nr: "never_removes k evs"
    by (auto simp: never_removes_def)
  have f: "frozen k t s (step L E ev s)"
    using Cons.prems(1,2) ne by (rule step_frozen)
  have "frozen k t s (steps L evs (step L E ev s))"
    using f _ Cons.prems(2)
  proof (rule frozen_trans)
    fix t1 assume "get_task (step L E ev s) k = Some t1" "reached_max t1"
    then show "frozen k t1 (step L E ev s) (steps L evs (step L E ev s))"
      using nr by (rule Cons.IH)
  qed
  with a show ?case by simp
qed

subsection \<open>Calls of Task.run on a shared task\<close>

lemma run_check_reached:
  "reached_max t \<Longrightarrow> \<exists>ls. run_check t now1 = Skipped t ls
                            \<or> run_check t now1 = Skipped (t \<lparr> enabled := False \<rparr>) ls"
  by (auto simp: run_check_def)

lemma tstep_one_at_a_time:
  assumes "one_at_a_time c" and "case ev of Begin l \<Rightarrow> inflight c = 0 | _ \<Rightarrow> True"
  shows "one_at_a_time (tstep ev c)"
proof (cases ev)
  case (Begin l)
  with assms(2) have z: "inflight c = 0" by simp
  show ?thesis
  proof (cases "run_check (obj c) l")
    case (Skipped t' ls)
    with run_check_skipped[OF Skipped] assms(1) z Begin show ?thesis
      by (auto simp: one_at_a_time_def)
  next
    case Proceeds
    with run_check_proceeds[OF Proceeds] assms(1) z Begin show ?thesis
      by (simp add: one_at_a_time_def)
  next
    case (Failed x)
    with assms(1) Begin show ?thesis by simp
  qed
next
  case (Return out d)
  show ?thesis
  proof (cases "inflight c = 0")
    case True
    with assms(1) Return show ?thesis by simp
  next
    case False
    with assms(1) have n: "inflight c = 1" "\<not> reached_max (obj c)" "within_cap (obj c)"
      by (auto simp: one_at_a_time_def)
    from evolves_run_call[OF n(2), of out d] n(3)
    have "within_cap (after (run_call (obj c) out d))" by (simp add: evolves_def)
    with n Return show ?thesis by (simp add: one_at_a_time_def)
  qed
next
  case (SetEnabled b)
  with assms(1) show ?thesis by (simp add: one_at_a_time_def)
next
  case (SetNextRun x)
  with assms(1) show ?thesis by (simp add: one_at_a_time_def)
next
  case (SetJob x)
  with assms(1) show ?thesis by (simp add: one_at_a_time_def)
qed

lemma serial_one_at_a_time:
  "one_at_a_time c \<Longrightarrow> serial evs c \<Longrightarrow> one_at_a_time (tsteps evs c)"
proof (induction evs arbitrary: c)
  case Nil
  then show ?case by simp
next
  case (Cons ev evs)
  from Cons.prems have "one_at_a_time (tstep ev c)"
    by (simp add: tstep_one_at_a_time)
  with Cons.prems Cons.IH[of "tstep ev c"] show ?case by simp
qed

lemma tstep_exhausted:
  assumes "reached_max (obj c)" and "inflight c = 0"
  shows "reached_max (obj (tstep ev c)) \<and> inflight (tstep ev c) = 0
       \<and> unit_calls (tstep ev c) = unit_calls c
       \<and> run_count (obj (tstep ev c)) = run_count (obj c)"
proof (cases ev)
  case (Begin l)
  from run_check_reached[OF assms(1), of l] assms Begin show ?thesis by auto
qed (use assms in simp_all)

lemma tsteps_exhausted:
  "reached_max (obj c) \<Longrightarrow> inflight c = 0 \<Longrightarrow>
   unit_calls (tsteps evs c) = unit_calls c
   \<and> run_count (obj (tsteps evs c)) = run_count (obj c)"
proof (induction evs arbitrary: c)
  case Nil
  then show ?case by simp
next
  case (Cons ev evs)
  from tstep_exhausted[OF Cons.prems, of ev] Cons.IH[of "tstep ev c"]
  show ?case by simp
qed

text \<open>
  C6, as the claim states it, fails in two ways. \<^verbatim>\<open>Task.run\<close> tests the cap before the
  call and does not clear \<open>enabled\<close> after the run that reaches it: the task of the
  example has \<open>max_runs\<close> 1, and after its one run \<open>run_count\<close> is 1 and \<open>enabled\<close> is still
  \<^verbatim>\<open>True\<close>. And \<^verbatim>\<open>Task.run\<close> takes no lock between the test and the increment: when two
  calls on that task both pass the test before either work-unit returns, the work-unit
  is called twice and \<open>run_count\<close> ends at 2, above \<open>max_runs\<close>.
\<close>

theorem max_runs_counterexample:
  "fst (run_task example_lib example_env ''t1'' added) = Inr (Some 7)
   \<and> map (\<lambda>t. (max_runs t, run_count t, enabled t)) (get_tasks exhausted) = [(Some 1, 1, True)]
   \<and> max_runs (obj shared_report) = Some 1 \<and> run_count (obj shared_report) = 0
   \<and> max_runs (obj (tsteps overlapping shared_report)) = Some 1
   \<and> run_count (obj (tsteps overlapping shared_report)) = 2
   \<and> unit_calls (tsteps overlapping shared_report) = 2"
proof -
  have a: "fst (run_task example_lib example_env ''t1'' added) = Inr (Some 7)
   \<and> map (\<lambda>t. (max_runs t, run_count t, enabled t)) (get_tasks exhausted) = [(Some 1, 1, True)]"
    by (simp add: exhausted_def ex_defs ops_defs)
  have b: "max_runs (obj shared_report) = Some 1 \<and> run_count (obj shared_report) = 0
   \<and> max_runs (obj (tsteps overlapping shared_report)) = Some 1
   \<and> run_count (obj (tsteps overlapping shared_report)) = 2
   \<and> unit_calls (tsteps overlapping shared_report) = 2"
    by (simp add: shared_report_def overlapping_def report_task_def Task_def run_check_def
          run_call_def completed_def reached_max_def past_end_def then_do_def
          timedelta_seconds_def dt_plus_def max_instant_def seconds_def)
  from a b show ?thesis by simp
qed

text \<open>
  C6, amended. As long as no two calls of \<^verbatim>\<open>Task.run\<close> on a task overlap: when every
  registered task with \<open>max_runs\<close> set has \<open>run_count \<le> max_runs\<close>, and so has every task
  that is added, \<open>run_count \<le> max_runs\<close> holds after every sequence of operations, and
  after every run of calls and assignments on one task object. Once the \<open>run_count\<close> of a
  task has reached its \<open>max_runs\<close> and no call is in flight, nothing (short of removing
  the task) calls its work-unit again or changes its \<open>run_count\<close>, whether later calls
  overlap or not; \<open>enabled\<close> is not cleared at that moment, but by the next call of
  \<^verbatim>\<open>Task.run\<close> on the task while it is enabled, which returns without calling the
  work-unit. Calls that overlap can take \<open>run_count\<close> above \<open>max_runs\<close>.
\<close>

theorem max_runs_cap:
  "(capped s \<and> adds_within_cap evs \<longrightarrow> capped (steps L evs s))
   \<and> (get_task s k = Some t \<and> reached_max t \<and> never_removes k evs \<longrightarrow>
        calls_of k (steps L evs s) = calls_of k s
        \<and> map_option run_count (get_task (steps L evs s) k) = Some (run_count t))
   \<and> (reached_max t \<and> enabled t \<longrightarrow>
        \<not> enabled (after (run t out now1 now2)) \<and> \<not> invoked (run t out now1 now2)
        \<and> run_count (after (run t out now1 now2)) = run_count t)
   \<and> (one_at_a_time c \<and> serial tevs c \<longrightarrow> within_cap (obj (tsteps tevs c)))
   \<and> (reached_max (obj c) \<and> inflight c = 0 \<longrightarrow>
        unit_calls (tsteps tevs c) = unit_calls c
        \<and> run_count (obj (tsteps tevs c)) = run_count (obj c))"
proof -
  have a: "capped s \<and> adds_within_cap evs \<longrightarrow> capped (steps L evs s)"
    by (simp add: steps_capped)
  have b: "get_task s k = Some t \<and> reached_max t \<and> never_removes k evs \<longrightarrow>
        calls_of k (steps L evs s) = calls_of k s
        \<and> map_option run_count (get_task (steps L evs s) k) = Some (run_count t)"
  proof (intro impI)
    assume h: "get_task s k = Some t \<and> reached_max t \<and> never_removes k evs"
    then have "frozen k t s (steps L evs s)" by (simp add: steps_frozen)
    then show "calls_of k (steps L evs s) = calls_of k s
        \<and> map_option run_count (get_task (steps L evs s) k) = Some (run_count t)"
      by (auto simp: frozen_def calls_of_def)
  qed
  have c1: "reached_max t \<and> enabled t \<longrightarrow>
        \<not> enabled (after (run t out now1 now2)) \<and> \<not> invoked (run t out now1 now2)
        \<and> run_count (after (run t out now1 now2)) = run_count t"
    by (simp add: run_def run_check_def)
  have d: "one_at_a_time c \<and> serial tevs c \<longrightarrow> within_cap (obj (tsteps tevs c))"
  proof (intro impI)
    assume "one_at_a_time c \<and> serial tevs c"
    then have "one_at_a_time (tsteps tevs c)" by (simp add: serial_one_at_a_time)
    then show "within_cap (obj (tsteps tevs c))" by (simp add: one_at_a_time_def)
  qed
  have f: "reached_max (obj c) \<and> inflight c = 0 \<longrightarrow>
        unit_calls (tsteps tevs c) = unit_calls c
        \<and> run_count (obj (tsteps tevs c)) = run_count (obj c)"
    by (simp add: tsteps_exhausted)
  from a b c1 d f show ?thesis by simp
qed

theorem max_runs_cap_witness:
  "capped added \<and> adds_within_cap later_events
   \<and> capped (steps example_lib later_events added)
   \<and> never_removes ''t1'' later_events
   \<and> map (\<lambda>t. (max_runs t, run_count t, enabled t)) (get_tasks exhausted) = [(Some 1, 1, True)]
   \<and> calls_of ''t1'' (steps example_lib later_events exhausted) = 1
   \<and> map_option run_count (get_task (steps example_lib later_events exhausted) ''t1'') = Some 1
   \<and> map_option (\<lambda>t. (enabled (after (run t (outcome example_env) 3000 4000)),
                        invoked (run t (outcome example_env) 3000 4000),
                        run_count (after (run t (outcome example_env) 3000 4000))))
        (get_task exhausted ''t1'') = Some (False, False, 1)
   \<and> one_at_a_time shared_report
   \<and> serial [Begin 1000, SetNextRun None, Return (Returns (Some (7::nat))) 2000, Begin 3000]
        shared_report
   \<and> within_cap (obj (tsteps [Begin 1000, SetNextRun None, Return (Returns (Some (7::nat))) 2000,
                               Begin 3000] shared_report))
   \<and> reached_max (obj (tsteps [Begin 1000, Return (Returns (Some (7::nat))) 2000] shared_report))
   \<and> inflight (tsteps [Begin 1000, Return (Returns (Some (7::nat))) 2000] shared_report) = 0
   \<and> unit_calls (tsteps overlapping
                   (tsteps [Begin 1000, Return (Returns (Some (7::nat))) 2000] shared_report)) = 1
   \<and> run_count (obj (tsteps overlapping
                   (tsteps [Begin 1000, Return (Returns (Some (7::nat))) 2000] shared_report))) = 1"
proof -
  let ?t = "report_task \<lparr> run_count := 1, last_run := Some (Naive 2000),
                           next_run := Some (Naive 60002000), job := Some 0 \<rparr>"
  let ?ser = "[Begin 1000, SetNextRun None, Return (Returns (Some (7::nat))) 2000, Begin 3000]"
  let ?c = "tsteps [Begin 1000, Return (Returns (Some (7::nat))) 2000] shared_report"
  have tdefs: "run_check report_task 1000 = Proceeds"
    by (simp add: report_task_def Task_def run_check_def reached_max_def past_end_def)
  have ta: "tasks added
              = [(''t1'', report_task \<lparr> job := Some 0, next_run := Some (Naive 60001000) \<rparr>)]"
    by (simp add: ex_defs ops_defs)
  have h1: "capped added \<and> adds_within_cap later_events"
    by (simp add: ta capped_def within_cap_def adds_within_cap_def later_events_def
          report_task_def Task_def)
  have h2: "get_task exhausted ''t1'' = Some ?t \<and> reached_max ?t
            \<and> never_removes ''t1'' later_events"
    by (simp add: exhausted_state never_removes_def later_events_def report_task_def Task_def
          reached_max_def)
  have h3: "reached_max ?t \<and> enabled ?t"
    by (simp add: report_task_def Task_def reached_max_def)
  have h4: "one_at_a_time shared_report \<and> serial ?ser shared_report"
    by (simp add: shared_report_def one_at_a_time_def within_cap_def tdefs)
       (simp add: report_task_def Task_def)
  have c: "obj ?c = report_task \<lparr> run_count := 1, last_run := Some (Naive 2000),
                                  next_run := Some (Naive 60002000) \<rparr>
           \<and> inflight ?c = 0 \<and> unit_calls ?c = 1"
    by (simp add: shared_report_def tdefs run_call_def completed_def)
       (simp add: report_task_def Task_def then_do_def timedelta_seconds_def dt_plus_def
          max_instant_def seconds_def)
  then have h5: "reached_max (obj ?c) \<and> inflight ?c = 0"
    by (simp add: report_task_def Task_def reached_max_def)
  have v: "calls_of ''t1'' exhausted = 1" "run_count ?t = 1"
    "map (\<lambda>t. (max_runs t, run_count t, enabled t)) (get_tasks exhausted) = [(Some 1, 1, True)]"
    "run_count (obj ?c) = 1" "unit_calls ?c = 1"
    using c
    by (simp_all add: calls_of_def exhausted_state get_tasks_def report_task_def Task_def)
  have a1: "capped (steps example_lib later_events added)"
    using max_runs_cap[where s = added and evs = later_events and L = example_lib,
            THEN conjunct1] h1
    by simp
  have a2: "calls_of ''t1'' (steps example_lib later_events exhausted) = calls_of ''t1'' exhausted
        \<and> map_option run_count (get_task (steps example_lib later_events exhausted) ''t1'')
            = Some (run_count ?t)"
    using max_runs_cap[where s = exhausted and evs = later_events and L = example_lib
            and k = "''t1''" and t = ?t, THEN conjunct2, THEN conjunct1] h2
    by simp
  have a3: "\<not> enabled (after (run ?t (outcome example_env) 3000 4000))
        \<and> \<not> invoked (run ?t (outcome example_env) 3000 4000)
        \<and> run_count (after (run ?t (outcome example_env) 3000 4000)) = run_count ?t"
    using max_runs_cap[where t = ?t and out = "outcome example_env" and ?now1.0 = 3000
            and ?now2.0 = 4000, THEN conjunct2, THEN conjunct2, THEN conjunct1] h3
    by simp
  have a4: "within_cap (obj (tsteps ?ser shared_report))"
    using max_runs_cap[where c = shared_report and tevs = ?ser,
            THEN conjunct2, THEN conjunct2, THEN conjunct2, THEN conjunct1] h4
    by simp
  have a5: "unit_calls (tsteps overlapping ?c) = unit_calls ?c
        \<and> run_count (obj (tsteps overlapping ?c)) = run_count (obj ?c)"
    using max_runs_cap[where c = ?c and tevs = overlapping,
            THEN conjunct2, THEN conjunct2, THEN conjunct2, THEN conjunct2] h5
    by simp
  from h1 h2 h4 h5 v a1 a2 a3 a4 a5 show ?thesis by simp
qed

section \<open>The persisted record\<close>

lemma parse_field:
  assumes "\<And>x. v = Some x \<Longrightarrow> fromisoformat L (isoformat L x) = Inr x \<and> isoformat L x \<noteq> []"
    and "d k = Some (iso_or_none L v)"
  shows "parse_or_none L d k = Inr v"
  using assms
  by (cases v) (simp_all add: parse_or_none_def getitem_def then_do_def iso_or_none_def)

lemma to_dict_func: "to_dict L (t \<lparr> func := g \<rparr>) = to_dict L t"
  by (simp add: to_dict_def)

lemma dom_to_dict:
  "dom (to_dict L t) = {''task_id'', ''name'', ''schedule_type'', ''interval'', ''cron'',
      ''start_time'', ''end_time'', ''max_runs'', ''enabled'', ''run_count'', ''last_run'',
      ''next_run''}"
  by (simp add: to_dict_def insert_commute)

text \<open>
  C8. For every task whose times the text codec of \<^verbatim>\<open>datetime\<close> reads back as it wrote
  them (\<^verbatim>\<open>fromisoformat\<close> inverts \<^verbatim>\<open>isoformat\<close>, whose text is not empty): \<^verbatim>\<open>from_dict\<close> of
  \<^verbatim>\<open>to_dict\<close>, with any work-unit and arguments attached, is the same task but for the
  attached values and the job handle; so \<open>run_count\<close>, \<open>last_run\<close>, \<open>next_run\<close> and
  \<open>enabled\<close> are identical. The record has the twelve keys of the snapshot, none for
  the work-unit, and does not depend on the work-unit.
\<close>

theorem to_dict_from_dict_roundtrip:
  assumes codec: "\<And>d. Some d \<in> {start_time t, end_time t, last_run t, next_run t} \<Longrightarrow>
             fromisoformat L (isoformat L d) = Inr d \<and> isoformat L d \<noteq> []"
  shows "from_dict L (to_dict L t) f as kws =
           Inr (t \<lparr> func := f, args := or_empty as, kwargs := or_empty kws, job := None \<rparr>)
       \<and> map_sum id (\<lambda>t'. (run_count t', last_run t', next_run t', enabled t'))
            (from_dict L (to_dict L t) f as kws)
           = Inr (run_count t, last_run t, next_run t, enabled t)
       \<and> dom (to_dict L t) = {''task_id'', ''name'', ''schedule_type'', ''interval'', ''cron'',
            ''start_time'', ''end_time'', ''max_runs'', ''enabled'', ''run_count'', ''last_run'',
            ''next_run''}
       \<and> to_dict L (t \<lparr> func := g \<rparr>) = to_dict L t"
proof -
  have st: "parse_or_none L (to_dict L t) ''start_time'' = Inr (start_time t)"
    by (rule parse_field[where v = "start_time t"]) (use codec in \<open>auto simp: to_dict_def\<close>)
  have en: "parse_or_none L (to_dict L t) ''end_time'' = Inr (end_time t)"
    by (rule parse_field[where v = "end_time t"]) (use codec in \<open>auto simp: to_dict_def\<close>)
  have lr: "parse_or_none L (to_dict L t) ''last_run'' = Inr (last_run t)"
    by (rule parse_field[where v = "last_run t"]) (use codec in \<open>auto simp: to_dict_def\<close>)
  have nr: "parse_or_none L (to_dict L t) ''next_run'' = Inr (next_run t)"
    by (rule parse_field[where v = "next_run t"]) (use codec in \<open>auto simp: to_dict_def\<close>)
  have g: "getitem (to_dict L t) ''task_id'' = Inr (JStr (task_id t))"
     "getitem (to_dict L t) ''name'' = Inr (JStr (name t))"
     "getitem (to_dict L t) ''schedule_type'' = Inr (JStr (schedule_type t))"
     "getitem (to_dict L t) ''interval'' = Inr (JInt (interval t))"
     "getitem (to_dict L t) ''cron'' = Inr (opt_str (cron t))"
     "getitem (to_dict L t) ''max_runs'' = Inr (opt_int (max_runs t))"
     "getitem (to_dict L t) ''enabled'' = Inr (JBool (enabled t))"
     "getitem (to_dict L t) ''run_count'' = Inr (JInt (run_count t))"
    by (simp_all add: getitem_def to_dict_def)
  have c: "as_opt_str (opt_str (cron t)) = Inr (cron t)"
    by (cases "cron t") (simp_all add: opt_str_def)
  have m: "as_opt_int (opt_int (max_runs t)) = Inr (max_runs t)"
    by (cases "max_runs t") (simp_all add: opt_int_def)
  have r: "from_dict L (to_dict L t) f as kws =
           Inr (t \<lparr> func := f, args := or_empty as, kwargs := or_empty kws, job := None \<rparr>)"
    by (simp add: from_dict_def st en lr nr g c m then_do_def Task_def or_empty_def)
  from r dom_to_dict[of L t] to_dict_func[where L = L and t = t and g = g] show ?thesis by simp
qed

lemma example_codec:
  "example_fromiso (example_iso (Naive 2000)) = Inr (Naive 2000)"
  "example_iso (Naive 2000) \<noteq> []"
  "example_fromiso (example_iso (Naive 62000000)) = Inr (Naive 62000000)"
  "example_iso (Naive 62000000) \<noteq> []"
  by (simp_all add: example_fromiso_def show_int_def str_nat.simps py_int_def is_digit_def
        is_space_def digits_value_def)

theorem to_dict_from_dict_roundtrip_witness:
  "from_dict example_lib (to_dict example_lib history_task) () None None = Inr history_task
   \<and> last_run history_task = Some (Naive 2000) \<and> next_run history_task = Some (Naive 62000000)
   \<and> run_count history_task = 1 \<and> enabled history_task = False
   \<and> ''function'' \<notin> dom (to_dict example_lib history_task)"
proof -
  have h: "\<And>d. Some d \<in> {start_time history_task, end_time history_task, last_run history_task,
                          next_run history_task} \<Longrightarrow>
             fromisoformat example_lib (isoformat example_lib d) = Inr d
             \<and> isoformat example_lib d \<noteq> []"
    using example_codec
    by (auto simp: history_task_def report_task_def Task_def example_lib_def)
  have e: "history_task \<lparr> func := (), args := or_empty None, kwargs := or_empty None, job := None \<rparr>
             = history_task"
    by (simp add: history_task_def report_task_def Task_def or_empty_def)
  have v: "last_run history_task = Some (Naive 2000)" "next_run history_task = Some (Naive 62000000)"
    "run_count history_task = 1" "enabled history_task = False"
    by (simp_all add: history_task_def report_task_def Task_def)
  from to_dict_from_dict_roundtrip[where t = history_task and L = example_lib and f = "()"
         and as = None and kws = None and g = "()", OF h] e v
  show ?thesis by simp
qed

section \<open>Startup\<close>

lemma load_entries_empty: "snd (load_entries L es []) = []"
  by (induction L es "[] :: (string \<times> ('f, 'a) task) list" rule: load_entries.induct)
     (auto split: sum.splits jval.splits)

lemma load_entries_empty_eq:
  assumes "load_entries L es [] = (r, ts)"
  shows "ts = []"
proof -
  from assms have "snd (load_entries L es []) = ts" by simp
  then show ?thesis by (simp add: load_entries_empty)
qed

lemma init_registry_empty:
  "(case init L mk js h f of Inl x \<Rightarrow> True | Inr s \<Rightarrow> tasks s = [])"
  by (auto simp: init_def load_tasks_def fresh_def dest: load_entries_empty_eq
           split: option.splits file_state.splits prod.splits sum.splits if_splits)

text \<open>
  C9. \<^verbatim>\<open>__init__\<close> calls \<^verbatim>\<open>_load_tasks\<close> right after it has set \<^verbatim>\<open>self.tasks\<close> to the empty
  dict, so the test \<^verbatim>\<open>task_data["task_id"] not in self.tasks\<close> skips every record and
  the assignments of lines 204 to 207 are never reached: the registry is empty after
  startup (\<open>init_registry_empty\<close>). In the example the file holds the record of a task
  with one run; after startup no task is registered, and the task added again under
  the same id starts from \<open>run_count\<close> 0, enabled, with no \<open>last_run\<close>.
\<close>

theorem init_restores_nothing:
  "map_sum id get_tasks (init example_lib None [] 0 persisted :: py_exception + (unit, unit) scheduler)
     = Inr []
   \<and> map_sum id
       (\<lambda>s. map (\<lambda>t. (enabled t, run_count t, last_run t))
              (get_tasks (snd (add_task example_lib example_env report_task s))))
       (init example_lib None [] 0 persisted)
     = Inr [(True, 0, None)]"
  by (simp add: init_def load_tasks_def persisted_def getitem_def to_dict_def history_task_def ex_defs ops_defs)

end
